theory Spec2Isabelle
  imports Main
begin

section \<open>Data model of \<^verbatim>\<open>detecter/runner/base_runner.py\<close>\<close>

subsection \<open>Python values and exceptions\<close>

text \<open>
  State blobs exchanged with the optimizer and the hooks are Python values. Only their
  truth value (\<^verbatim>\<open>if sd:\<close> in \<^verbatim>\<open>state_dict\<close>) is inspected by the runner.
\<close>

datatype pyval =
    PNone
  | PBool bool
  | PInt int
  | PStr string
  | PList "pyval list"
  | PDict "(string \<times> pyval) list"

fun truthy :: "pyval \<Rightarrow> bool" where
  "truthy PNone = False"
| "truthy (PBool b) = b"
| "truthy (PInt i) = (i \<noteq> 0)"
| "truthy (PStr s) = (s \<noteq> [])"
| "truthy (PList xs) = (xs \<noteq> [])"
| "truthy (PDict kvs) = (kvs \<noteq> [])"

text \<open>
  The exceptions the runner raises itself, and \<open>External\<close> for an exception raised inside
  a collaborator (optimizer, hook method, \<^verbatim>\<open>get_priority\<close>, checkpointer), which the
  runner never catches and which reaches the caller unmodified.
\<close>

datatype error =
    ValueError string
  | TypeError string
  | KeyError string
  | AttributeError string
  | AssertionError
  | External string

subsection \<open>Hooks\<close>

text \<open>
  A hook object: \<open>kind\<close> is \<^verbatim>\<open>type(h).__qualname__\<close>, \<open>priority\<close> is the attribute
  \<^verbatim>\<open>priority\<close> (\<open>None\<close> while \<^verbatim>\<open>hasattr(hook, 'priority')\<close> is false), \<open>hstate\<close> is
  everything else the object holds.
\<close>

record 's hook =
  kind :: string
  priority :: "int option"
  hstate :: 's

text \<open>The first argument of \<^verbatim>\<open>register_hook\<close>: an instance of \<^verbatim>\<open>Hook\<close> or anything else.\<close>

datatype 's pyobj = HookObj "'s hook" | OtherObj

text \<open>The second argument of \<^verbatim>\<open>register_hook\<close>: an integer or a symbolic level.\<close>

datatype prio_arg = PrioInt int | PrioName string

text \<open>
  A model object, as far as \<^verbatim>\<open>__init__\<close> looks at it: the name of its class and, when it
  has one, its attribute \<^verbatim>\<open>module\<close> (the wrapped model of a parallel wrapper).
\<close>

datatype pymodel = PyModel (class_name: string) (module_attr: "pymodel option")

subsection \<open>Snapshots, configuration and the runner\<close>

text \<open>
  The dictionary built by \<^verbatim>\<open>state_dict\<close> and read by \<^verbatim>\<open>load_state_dict\<close>. A field is
  \<open>None\<close> when the key is missing from the dictionary; \<open>s_hooks\<close> is the value under
  \<^verbatim>\<open>"hooks"\<close>, a dictionary in insertion order.
\<close>

record snapshot =
  s_iter :: "int option"
  s_epoch :: "int option"
  s_optimizer :: "pyval option"
  s_hooks :: "(string \<times> pyval) list option"

text \<open>The part of \<^verbatim>\<open>cfg\<close> the runner reads: \<^verbatim>\<open>cfg.checkpoint.by_epoch\<close> and \<^verbatim>\<open>.period\<close>.\<close>

record cfg =
  checkpoint_by_epoch :: bool
  checkpoint_period :: int

datatype work_dir_arg = WorkDirStr string | WorkDirNone | WorkDirOther

text \<open>
  The attributes of \<^verbatim>\<open>BaseRunner\<close> that the methods below read or write. \<open>logged\<close>
  collects the messages passed to \<^verbatim>\<open>self.logger.warning\<close>, oldest first.
\<close>

record ('s, 'o) runner =
  hooks :: "'s hook list"
  epoch :: int
  iter :: int
  inner_iter :: int
  max_epochs :: "int option"
  max_iters :: "int option"
  mode :: "string option"
  runner_type :: string
  work_dir :: "string option"
  runner_cfg :: "cfg option"
  optimizer :: 'o
  logged :: "string list"
  model :: pymodel
  model_name :: string
  rank :: int
  world_size :: int
  timestamp :: string

text \<open>
  The collaborators that \<^verbatim>\<open>base_runner.py\<close> calls and does not define, each by its effect. A method of an
  object returns its result (or the message of the exception it raised) together with the
  object's new state. \<open>hook_callback env fn_name i r\<close> is the call
  \<^verbatim>\<open>getattr(hook, fn_name)(self)\<close> for the hook at index \<open>i\<close> of the runner \<open>r\<close>: it
  returns the exception raised (if any) and the runner as the call leaves it. A function
  or constructor called for its result returns the message of the exception it raised or
  the result; \<open>mkdir_or_exist\<close> and \<open>detection_checkpointer\<close> (the constructor of
  \<^verbatim>\<open>DetectionCheckpointer\<close>, whose object is seen below only through \<open>ckpt_has_checkpoint\<close>
  and \<open>ckpt_load\<close>) return the exception raised, if any.
\<close>

record ('s, 'o) collaborators =
  get_priority :: "prio_arg \<Rightarrow> string + int"
  hook_state_dict :: "'s hook \<Rightarrow> (string + pyval) \<times> 's"
  hook_load_state_dict :: "pyval \<Rightarrow> 's hook \<Rightarrow> string option \<times> 's"
  hook_callback :: "string \<Rightarrow> nat \<Rightarrow> ('s, 'o) runner \<Rightarrow> string option \<times> ('s, 'o) runner"
  opt_state_dict :: "'o \<Rightarrow> (string + pyval) \<times> 'o"
  opt_load_state_dict :: "pyval \<Rightarrow> 'o \<Rightarrow> string option \<times> 'o"
  is_main_process :: "string + bool"
  periodic_checkpointer :: "bool \<Rightarrow> int \<Rightarrow> string + 's pyobj"
  abspath :: "string \<Rightarrow> string"
  mkdir_or_exist :: "string \<Rightarrow> string option"
  dist_get_world_size :: "string + int"
  dist_get_local_rank :: "string + int"
  distributed_data_parallel :: "pymodel \<Rightarrow> (string \<times> pyval) list \<Rightarrow> string + pymodel"
  detection_checkpointer :: "pymodel \<Rightarrow> string option \<Rightarrow> string option"
  cvcore_get_rank :: "string + int"
  cvcore_get_world_size :: "string + int"
  get_time_str :: "string + string"
  ckpt_has_checkpoint :: bool
  ckpt_load :: "string \<Rightarrow> string + snapshot"

section \<open>The hook registry\<close>

text \<open>
  The loop of \<^verbatim>\<open>register_hook\<close>, \<^verbatim>\<open>for i in range(len(self._hooks) - 1, -1, -1)\<close>:
  \<open>insert_scan n p h hs\<close> has the indices below \<open>n\<close> still to visit, the next one being
  \<open>n - 1\<close>. Reading \<^verbatim>\<open>.priority\<close> of a registered hook that has none raises.
\<close>

fun insert_scan :: "nat \<Rightarrow> int \<Rightarrow> 's hook \<Rightarrow> 's hook list \<Rightarrow> error + 's hook list" where
  "insert_scan 0 p h hs = Inr (h # hs)"
| "insert_scan (Suc i) p h hs =
     (case priority (hs ! i) of
        None \<Rightarrow> Inl (AttributeError ''priority'')
      | Some q \<Rightarrow>
          if p \<ge> q then Inr (take (Suc i) hs @ h # drop (Suc i) hs)
          else insert_scan i p h hs)"

text \<open>
  \<^verbatim>\<open>register_hook(hook, priority)\<close>. The result is the exception raised (if any), the
  argument object as the call leaves it, and the runner as the call leaves it.
\<close>

definition register_hook ::
  "('s, 'o) collaborators \<Rightarrow> 's pyobj \<Rightarrow> prio_arg \<Rightarrow> ('s, 'o) runner
     \<Rightarrow> error option \<times> 's pyobj \<times> ('s, 'o) runner" where
  \<open>register_hook env obj prio r =
     (case obj of
        OtherObj \<Rightarrow> (Some AssertionError, obj, r)
      | HookObj h \<Rightarrow>
          if priority h \<noteq> None
          then (Some (ValueError ''"priority" is a reserved attribute for hooks''), obj, r)
          else (case get_priority env prio of
                  Inl m \<Rightarrow> (Some (External m), obj, r)
                | Inr p \<Rightarrow>
                    let h' = h\<lparr>priority := Some p\<rparr> in
                    (case insert_scan (length (hooks r)) p h' (hooks r) of
                       Inl e \<Rightarrow> (Some e, HookObj h', r)
                     | Inr hs \<Rightarrow> (None, HookObj h', r\<lparr>hooks := hs\<rparr>))))\<close>

text \<open>
  A sequence of \<^verbatim>\<open>register_hook\<close> calls on one runner; a call that raises leaves the
  registry as it was, whether or not the caller goes on.
\<close>

fun register_hooks ::
  "('s, 'o) collaborators \<Rightarrow> ('s pyobj \<times> prio_arg) list \<Rightarrow> ('s, 'o) runner \<Rightarrow> ('s, 'o) runner" where
  "register_hooks env [] r = r"
| "register_hooks env ((obj, prio) # reqs) r =
     register_hooks env reqs (snd (snd (register_hook env obj prio r)))"

text \<open>The hooks that such a sequence registers, in call order, with the priority each receives.\<close>

fun registered :: "('s, 'o) collaborators \<Rightarrow> ('s pyobj \<times> prio_arg) list \<Rightarrow> 's hook list" where
  "registered env [] = []"
| "registered env ((OtherObj, prio) # reqs) = registered env reqs"
| "registered env ((HookObj h, prio) # reqs) =
     (if priority h \<noteq> None then registered env reqs
      else (case get_priority env prio of
              Inl m \<Rightarrow> registered env reqs
            | Inr p \<Rightarrow> h\<lparr>priority := Some p\<rparr> # registered env reqs))"

text \<open>
  \<^verbatim>\<open>call_hook(fn_name)\<close>: \<^verbatim>\<open>for hook in self._hooks: getattr(hook, fn_name)(self)\<close>, the
  list iterator being at index \<open>i\<close>. A callback is free to change the runner, the hook
  list included, so the loop need not end: the result is \<open>None\<close> when it does not.
\<close>

partial_function (option) call_hook_from ::
  "('s, 'o) collaborators \<Rightarrow> string \<Rightarrow> nat \<Rightarrow> ('s, 'o) runner
     \<Rightarrow> (error option \<times> ('s, 'o) runner) option" where
  "call_hook_from env fn_name i r =
     (if i < length (hooks r)
      then (case hook_callback env fn_name i r of
              (Some m, r') \<Rightarrow> Some (Some (External m), r')
            | (None, r') \<Rightarrow> call_hook_from env fn_name (Suc i) r')
      else Some (None, r))"

definition call_hook ::
  "('s, 'o) collaborators \<Rightarrow> string \<Rightarrow> ('s, 'o) runner
     \<Rightarrow> (error option \<times> ('s, 'o) runner) option" where
  "call_hook env fn_name r = call_hook_from env fn_name 0 r"

section \<open>Snapshot and restore\<close>

text \<open>
  The loop of \<^verbatim>\<open>state_dict\<close> over \<^verbatim>\<open>self._hooks\<close>, with \<open>acc\<close> the dictionary
  \<^verbatim>\<open>hooks_state\<close> built so far. It returns the dictionary (or the exception of a hook's
  \<^verbatim>\<open>state_dict()\<close>) and the hooks as the calls leave them.
\<close>

fun collect_hooks_state ::
  "('s, 'o) collaborators \<Rightarrow> 's hook list \<Rightarrow> (string \<times> pyval) list
     \<Rightarrow> (error + (string \<times> pyval) list) \<times> 's hook list" where
  "collect_hooks_state env [] acc = (Inr acc, [])"
| "collect_hooks_state env (h # hs) acc =
     (case hook_state_dict env h of
        (Inl m, s') \<Rightarrow> (Inl (External m), h\<lparr>hstate := s'\<rparr> # hs)
      | (Inr sd, s') \<Rightarrow>
          (let acc' = (if truthy sd
                       then (if kind h \<in> set (map fst acc) then acc
                             else acc @ [(kind h, sd)])
                       else acc);
               rest = collect_hooks_state env hs acc'
           in (fst rest, h\<lparr>hstate := s'\<rparr> # snd rest)))"

text \<open>\<^verbatim>\<open>state_dict()\<close>: the snapshot (or the exception raised) and the runner as the call leaves it.\<close>

definition state_dict ::
  "('s, 'o) collaborators \<Rightarrow> ('s, 'o) runner \<Rightarrow> (error + snapshot) \<times> ('s, 'o) runner" where
  "state_dict env r =
     (case opt_state_dict env (optimizer r) of
        (Inl m, ost) \<Rightarrow> (Inl (External m), r\<lparr>optimizer := ost\<rparr>)
      | (Inr ov, ost) \<Rightarrow>
          (case collect_hooks_state env (hooks r) [] of
             (Inl e, hs) \<Rightarrow> (Inl e, r\<lparr>hooks := hs, optimizer := ost\<rparr>)
           | (Inr hooks_state, hs) \<Rightarrow>
               (Inr \<lparr>s_iter = Some (iter r), s_epoch = Some (epoch r),
                     s_optimizer = Some ov,
                     s_hooks = (if hooks_state \<noteq> [] then Some hooks_state else None)\<rparr>,
                r\<lparr>hooks := hs, optimizer := ost\<rparr>)))"

text \<open>
  The inner loop of \<^verbatim>\<open>load_state_dict\<close>, \<^verbatim>\<open>for h in self._hooks: ... else: ...\<close>, for one
  entry \<open>(key, value)\<close>. Every class has a \<^verbatim>\<open>__qualname__\<close>, so the handler of
  \<^verbatim>\<open>AttributeError\<close> is never entered and has no branch here.
\<close>

datatype scan_result = Loaded | NotFound | Failed string

fun load_hook_entry ::
  "('s, 'o) collaborators \<Rightarrow> string \<Rightarrow> pyval \<Rightarrow> 's hook list \<Rightarrow> scan_result \<times> 's hook list" where
  "load_hook_entry env key val [] = (NotFound, [])"
| "load_hook_entry env key val (h # hs) =
     (if kind h = key
      then (case hook_load_state_dict env val h of
              (Some m, s') \<Rightarrow> (Failed m, h\<lparr>hstate := s'\<rparr> # hs)
            | (None, s') \<Rightarrow> (Loaded, h\<lparr>hstate := s'\<rparr> # hs))
      else (let rest = load_hook_entry env key val hs in (fst rest, h # snd rest)))"

definition missing_hook_warning :: "string \<Rightarrow> string" where
  "missing_hook_warning key =
     ''Cannot find the hook '' @ [CHR 0x27] @ key @ [CHR 0x27] @ '', its state_dict is ignored.''"

text \<open>The outer loop of \<^verbatim>\<open>load_state_dict\<close> over \<^verbatim>\<open>state_dict.get("hooks", {}).items()\<close>.\<close>

fun load_hooks_state ::
  "('s, 'o) collaborators \<Rightarrow> (string \<times> pyval) list \<Rightarrow> ('s, 'o) runner
     \<Rightarrow> error option \<times> ('s, 'o) runner" where
  "load_hooks_state env [] r = (None, r)"
| "load_hooks_state env ((key, val) # entries) r =
     (case load_hook_entry env key val (hooks r) of
        (Failed m, hs) \<Rightarrow> (Some (External m), r\<lparr>hooks := hs\<rparr>)
      | (Loaded, hs) \<Rightarrow> load_hooks_state env entries (r\<lparr>hooks := hs\<rparr>)
      | (NotFound, hs) \<Rightarrow>
          load_hooks_state env entries
            (r\<lparr>hooks := hs, logged := logged r @ [missing_hook_warning key]\<rparr>))"

text \<open>\<^verbatim>\<open>load_state_dict(state_dict)\<close>: the exception raised (if any) and the runner afterwards.\<close>

definition load_state_dict ::
  "('s, 'o) collaborators \<Rightarrow> snapshot \<Rightarrow> ('s, 'o) runner \<Rightarrow> error option \<times> ('s, 'o) runner" where
  "load_state_dict env sd r =
     (case s_iter sd of
        None \<Rightarrow> (Some (KeyError ''iter''), r)
      | Some i \<Rightarrow>
          (case s_epoch sd of
             None \<Rightarrow> (Some (KeyError ''epoch''), r\<lparr>iter := i\<rparr>)
           | Some e \<Rightarrow>
               (case s_optimizer sd of
                  None \<Rightarrow> (Some (KeyError ''optimizer''), r\<lparr>iter := i, epoch := e\<rparr>)
                | Some ov \<Rightarrow>
                    (case opt_load_state_dict env ov (optimizer r) of
                       (Some m, ost) \<Rightarrow>
                         (Some (External m), r\<lparr>iter := i, epoch := e, optimizer := ost\<rparr>)
                     | (None, ost) \<Rightarrow>
                         load_hooks_state env (case s_hooks sd of None \<Rightarrow> [] | Some es \<Rightarrow> es)
                           (r\<lparr>iter := i, epoch := e, optimizer := ost\<rparr>)))))"

section \<open>Resume\<close>

text \<open>
  Modelled from the spec: \<^verbatim>\<open>DetectionCheckpointer.resume_or_load\<close> is defined outside
  \<^verbatim>\<open>base_runner.py\<close>. When resume is requested and a prior checkpoint exists it loads
  the stored payload and restores the runner from it; otherwise it loads only model
  weights and leaves the runner as it is. A failure of the storage surfaces unmodified.
\<close>

definition checkpointer_resume_or_load ::
  "('s, 'o) collaborators \<Rightarrow> string \<Rightarrow> bool \<Rightarrow> ('s, 'o) runner
     \<Rightarrow> error option \<times> ('s, 'o) runner" where
  "checkpointer_resume_or_load env path resume r =
     (case ckpt_load env path of
        Inl m \<Rightarrow> (Some (External m), r)
      | Inr payload \<Rightarrow>
          if resume \<and> ckpt_has_checkpoint env then load_state_dict env payload r
          else (None, r))"

text \<open>\<^verbatim>\<open>resume_or_load(path, resume)\<close>.\<close>

definition resume_or_load ::
  "('s, 'o) collaborators \<Rightarrow> string \<Rightarrow> bool \<Rightarrow> ('s, 'o) runner
     \<Rightarrow> error option \<times> ('s, 'o) runner" where
  "resume_or_load env path resume r =
     (case checkpointer_resume_or_load env path resume r of
        (Some e, r') \<Rightarrow> (Some e, r')
      | (None, r') \<Rightarrow>
          if resume \<and> ckpt_has_checkpoint env
          then (None, r'\<lparr>iter := iter r' + 1, epoch := epoch r' + 1\<rparr>)
          else (None, r'))"

section \<open>Construction\<close>

text \<open>
  \<^verbatim>\<open>create_ddp_model(model, **kwargs)\<close>: the model itself in a single process, otherwise
  the model wrapped by \<^verbatim>\<open>DistributedDataParallel\<close>, with \<^verbatim>\<open>device_ids\<close> set to the local
  rank unless the caller gave them.
\<close>

definition create_ddp_model ::
  "('s, 'o) collaborators \<Rightarrow> pymodel \<Rightarrow> (string \<times> pyval) list \<Rightarrow> error + pymodel" where
  "create_ddp_model env m kwargs =
     (case dist_get_world_size env of
        Inl x \<Rightarrow> Inl (External x)
      | Inr n \<Rightarrow>
          if n = 1 then Inr m
          else (case (if ''device_ids'' \<notin> set (map fst kwargs)
                      then (case dist_get_local_rank env of
                              Inl x \<Rightarrow> Inl (External x)
                            | Inr lr \<Rightarrow> Inr (kwargs @ [(''device_ids'', PList [PInt lr])]))
                      else Inr kwargs) of
                  Inl e \<Rightarrow> Inl e
                | Inr kwargs' \<Rightarrow>
                    (case distributed_data_parallel env m kwargs' of
                       Inl x \<Rightarrow> Inl (External x)
                     | Inr ddp \<Rightarrow> Inr ddp)))"

text \<open>The arguments of \<^verbatim>\<open>__init__\<close> that decide its outcome or end up in the modelled state.\<close>

record 'o init_args =
  arg_model :: pymodel
  arg_optimizer :: 'o
  arg_work_dir :: work_dir_arg
  arg_max_iters :: "int option"
  arg_max_epochs :: "int option"
  arg_cfg :: "cfg option"

text \<open>
  The part of \<^verbatim>\<open>__init__\<close> that sets \<^verbatim>\<open>self.work_dir\<close>: a string is made absolute and
  the directory created, \<^verbatim>\<open>None\<close> stays, anything else is a \<^verbatim>\<open>TypeError\<close>.
\<close>

definition init_work_dir ::
  "('s, 'o) collaborators \<Rightarrow> work_dir_arg \<Rightarrow> error + string option" where
  \<open>init_work_dir env wd =
     (case wd of
        WorkDirStr d \<Rightarrow>
          (case mkdir_or_exist env (abspath env d) of
             Some x \<Rightarrow> Inl (External x)
           | None \<Rightarrow> Inr (Some (abspath env d)))
      | WorkDirNone \<Rightarrow> Inr None
      | WorkDirOther \<Rightarrow> Inl (TypeError ''"work_dir" must be a str or None''))\<close>

text \<open>
  \<^verbatim>\<open>_register_default_hook\<close>: on the main process the periodic checkpoint hook is built
  from \<^verbatim>\<open>self.cfg.checkpoint\<close> (an \<^verbatim>\<open>AttributeError\<close> when \<^verbatim>\<open>cfg\<close> is \<^verbatim>\<open>None\<close>) and
  registered with the default priority \<^verbatim>\<open>'NORMAL'\<close>.
\<close>

definition register_default_hook ::
  "('s, 'o) collaborators \<Rightarrow> ('s, 'o) runner \<Rightarrow> error + ('s, 'o) runner" where
  "register_default_hook env r =
     (case is_main_process env of
        Inl x \<Rightarrow> Inl (External x)
      | Inr main \<Rightarrow>
          if main
          then (case runner_cfg r of
                  None \<Rightarrow> Inl (AttributeError ''checkpoint'')
                | Some c \<Rightarrow>
                    (case periodic_checkpointer env (checkpoint_by_epoch c)
                            (checkpoint_period c) of
                       Inl x \<Rightarrow> Inl (External x)
                     | Inr obj \<Rightarrow>
                         (case register_hook env obj (PrioName ''NORMAL'') r of
                            (Some e, _, _) \<Rightarrow> Inl e
                          | (None, _, r') \<Rightarrow> Inr r')))
          else Inr r)"

text \<open>
  \<^verbatim>\<open>__init__\<close>, in the order of its statements: the model is wrapped, the working
  directory set, the name of the model read, the checkpointer built, rank, world size and
  time stamp queried, the registry and the counters initialised, the two budgets checked,
  and the default hook registered. The scheduler, the logger object and the meta data are
  stored as they come and are left out.
\<close>

definition init :: "('s, 'o) collaborators \<Rightarrow> 'o init_args \<Rightarrow> error + ('s, 'o) runner" where
  "init env args =
     (case create_ddp_model env (arg_model args) [(''broadcast_buffers'', PBool False)] of
        Inl e \<Rightarrow> Inl e
      | Inr m \<Rightarrow>
     (case init_work_dir env (arg_work_dir args) of
        Inl e \<Rightarrow> Inl e
      | Inr wd \<Rightarrow>
     (case detection_checkpointer env (arg_model args) wd of
        Some x \<Rightarrow> Inl (External x)
      | None \<Rightarrow>
     (case cvcore_get_rank env of
        Inl x \<Rightarrow> Inl (External x)
      | Inr rk \<Rightarrow>
     (case cvcore_get_world_size env of
        Inl x \<Rightarrow> Inl (External x)
      | Inr ws \<Rightarrow>
     (case get_time_str env of
        Inl x \<Rightarrow> Inl (External x)
      | Inr ts \<Rightarrow>
          if arg_max_epochs args \<noteq> None \<and> arg_max_iters args \<noteq> None
          then Inl (ValueError ''Only one of `max_epochs` or `max_iters` can be set.'')
          else register_default_hook env
                 \<lparr>hooks = [], epoch = 0, iter = 0, inner_iter = 0,
                  max_epochs = arg_max_epochs args, max_iters = arg_max_iters args,
                  mode = None, runner_type = ''iter'', work_dir = wd,
                  runner_cfg = arg_cfg args, optimizer = arg_optimizer args, logged = [],
                  model = m,
                  model_name = (case module_attr m of
                                  Some inner \<Rightarrow> class_name inner
                                | None \<Rightarrow> class_name m),
                  rank = rk, world_size = ws, timestamp = ts\<rparr>))))))"

section \<open>Predicates of the statements\<close>

text \<open>The priority of a registered hook, and the invariant of the registry.\<close>

definition prio :: "'s hook \<Rightarrow> int" where
  "prio h = the (priority h)"

definition registry_ok :: "'s hook list \<Rightarrow> bool" where
  "registry_ok hs \<longleftrightarrow> (\<forall>h \<in> set hs. priority h \<noteq> None) \<and> sorted (map prio hs)"

text \<open>
  What a hook's \<^verbatim>\<open>state_dict()\<close> returns (\<open>None\<close> when it raises), and whether the hook
  is stateful, that is, returns a state that counts as true.
\<close>

definition hook_export :: "('s, 'o) collaborators \<Rightarrow> 's hook \<Rightarrow> pyval option" where
  "hook_export env h = (case fst (hook_state_dict env h) of Inl m \<Rightarrow> None | Inr sd \<Rightarrow> Some sd)"

definition stateful :: "('s, 'o) collaborators \<Rightarrow> 's hook \<Rightarrow> bool" where
  "stateful env h = (case hook_export env h of None \<Rightarrow> False | Some sd \<Rightarrow> truthy sd)"

text \<open>The entries under \<^verbatim>\<open>"hooks"\<close> of a snapshot, none when the key is missing.\<close>

definition hook_entries :: "snapshot \<Rightarrow> (string \<times> pyval) list" where
  "hook_entries sd = (case s_hooks sd of None \<Rightarrow> [] | Some es \<Rightarrow> es)"

text \<open>
  The hooks mapping as the specification words it: going through the registry in order,
  a stateful hook contributes its state under its kind, and any later entry of the same
  kind is discarded.
\<close>

fun spec_hooks_state :: "('s, 'o) collaborators \<Rightarrow> 's hook list \<Rightarrow> (string \<times> pyval) list" where
  "spec_hooks_state env [] = []"
| "spec_hooks_state env (h # hs) =
     (if stateful env h
      then (kind h, the (hook_export env h))
             # filter (\<lambda>e. fst e \<noteq> kind h) (spec_hooks_state env hs)
      else spec_hooks_state env hs)"

text \<open>
  Dispatch as the specification words it: \<open>run_callbacks env fn_name k r\<close> is the runner
  after the callbacks of the hooks at indices \<open>0\<close> to \<open>k - 1\<close> have run, one after the
  other, each on the runner its predecessor left; \<open>callback_raises env fn_name r k\<close> is
  what the callback of the hook at index \<open>k\<close> raises when its turn comes.
\<close>

primrec run_callbacks ::
  "('s, 'o) collaborators \<Rightarrow> string \<Rightarrow> nat \<Rightarrow> ('s, 'o) runner \<Rightarrow> ('s, 'o) runner" where
  "run_callbacks env fn_name 0 r = r"
| "run_callbacks env fn_name (Suc k) r =
     snd (hook_callback env fn_name k (run_callbacks env fn_name k r))"

definition callback_raises ::
  "('s, 'o) collaborators \<Rightarrow> string \<Rightarrow> ('s, 'o) runner \<Rightarrow> nat \<Rightarrow> string option" where
  "callback_raises env fn_name r k =
     fst (hook_callback env fn_name k (run_callbacks env fn_name k r))"

text \<open>
  The condition under which \<^verbatim>\<open>_register_default_hook\<close> returns normally: the query for
  the main process returns and, on the main process, the configuration is present, the
  checkpoint hook is built and is a hook without a priority attribute, and
  \<^verbatim>\<open>'NORMAL'\<close> resolves.
\<close>

definition default_hook_registers :: "('s, 'o) collaborators \<Rightarrow> cfg option \<Rightarrow> bool" where
  "default_hook_registers env c =
     (case is_main_process env of
        Inl x \<Rightarrow> False
      | Inr main \<Rightarrow>
          if main
          then (case c of
                  None \<Rightarrow> False
                | Some c' \<Rightarrow>
                    (case periodic_checkpointer env (checkpoint_by_epoch c')
                            (checkpoint_period c') of
                       Inl x \<Rightarrow> False
                     | Inr OtherObj \<Rightarrow> False
                     | Inr (HookObj h) \<Rightarrow>
                         priority h = None
                         \<and> (case get_priority env (PrioName ''NORMAL'') of
                              Inl m \<Rightarrow> False | Inr p \<Rightarrow> True)))
          else True)"

text \<open>
  The collaborators that \<^verbatim>\<open>__init__\<close> calls before it checks the budgets return
  normally: the wrapping of the model and, unless the working directory is rejected
  before they are reached, the creation of the directory, the constructor of the
  checkpointer and the queries for rank, world size and time.
\<close>

definition setup_returns :: "('s, 'o) collaborators \<Rightarrow> 'o init_args \<Rightarrow> bool" where
  "setup_returns env args =
     ((case create_ddp_model env (arg_model args) [(''broadcast_buffers'', PBool False)] of
         Inl e \<Rightarrow> False | Inr m \<Rightarrow> True)
      \<and> (case arg_work_dir args of
           WorkDirOther \<Rightarrow> True
         | wd \<Rightarrow>
             (case wd of WorkDirStr d \<Rightarrow> mkdir_or_exist env (abspath env d) = None | _ \<Rightarrow> True)
             \<and> detection_checkpointer env (arg_model args)
                 (case wd of WorkDirStr d \<Rightarrow> Some (abspath env d) | _ \<Rightarrow> None) = None
             \<and> (case cvcore_get_rank env of Inl x \<Rightarrow> False | Inr rk \<Rightarrow> True)
             \<and> (case cvcore_get_world_size env of Inl x \<Rightarrow> False | Inr ws \<Rightarrow> True)
             \<and> (case get_time_str env of Inl x \<Rightarrow> False | Inr ts \<Rightarrow> True)))"

text \<open>
  Hook \<open>i\<close> is the first of its kind in the list; a hook as \<^verbatim>\<open>load_state_dict(v)\<close> leaves
  it; and a hook accepts a state when that call returns and the hook exports the state
  afterwards.
\<close>

definition first_of_kind :: "'s hook list \<Rightarrow> nat \<Rightarrow> bool" where
  "first_of_kind hs i \<longleftrightarrow> kind (hs ! i) \<notin> set (map kind (take i hs))"

definition loaded_with :: "('s, 'o) collaborators \<Rightarrow> pyval \<Rightarrow> 's hook \<Rightarrow> 's hook" where
  "loaded_with env v h = h\<lparr>hstate := snd (hook_load_state_dict env v h)\<rparr>"

definition accepts :: "('s, 'o) collaborators \<Rightarrow> pyval \<Rightarrow> 's hook \<Rightarrow> bool" where
  "accepts env v h \<longleftrightarrow>
     fst (hook_load_state_dict env v h) = None \<and> hook_export env (loaded_with env v h) = Some v"

section \<open>A concrete runner\<close>

text \<open>
  An instance of the collaborators on which the model can be run: priorities are integers
  or one of three named levels, a hook's state is the blob it exports and imports,
  a callback counts its calls in the integer state of its hook and notes its name in
  \<open>mode\<close>, or raises when that state is no integer, the storage holds one checkpoint,
  taken at iteration 9 of epoch 2, and there is a single process, the main one.
\<close>

definition demo_get_priority :: "prio_arg \<Rightarrow> string + int" where
  "demo_get_priority a =
     (case a of
        PrioInt i \<Rightarrow> Inr i
      | PrioName n \<Rightarrow>
          if n = ''HIGH'' then Inr 30
          else if n = ''NORMAL'' then Inr 50
          else if n = ''LOW'' then Inr 70
          else Inl ''unknown priority'')"

definition demo_env :: "(pyval, pyval) collaborators" where
  "demo_env =
     \<lparr>get_priority = demo_get_priority,
      hook_state_dict = (\<lambda>h. (Inr (hstate h), hstate h)),
      hook_load_state_dict = (\<lambda>v h. (None, v)),
      hook_callback =
        (\<lambda>fn_name i r.
           case hstate (hooks r ! i) of
             PInt n \<Rightarrow>
               (None, r\<lparr>hooks := (hooks r)[i := (hooks r ! i)\<lparr>hstate := PInt (n + 1)\<rparr>],
                         mode := Some fn_name\<rparr>)
           | _ \<Rightarrow> (Some ''callback failed'', r)),
      opt_state_dict = (\<lambda>ost. (Inr ost, ost)),
      opt_load_state_dict = (\<lambda>v ost. (None, v)),
      is_main_process = Inr True,
      periodic_checkpointer =
        (\<lambda>by_epoch period.
           Inr (HookObj \<lparr>kind = ''PeriodicCheckpointer'', priority = None, hstate = PNone\<rparr>)),
      abspath = (\<lambda>d. d),
      mkdir_or_exist = (\<lambda>d. None),
      dist_get_world_size = Inr 1,
      dist_get_local_rank = Inr 0,
      distributed_data_parallel =
        (\<lambda>m kwargs. Inr (PyModel ''DistributedDataParallel'' (Some m))),
      detection_checkpointer = (\<lambda>m wd. None),
      cvcore_get_rank = Inr 0,
      cvcore_get_world_size = Inr 1,
      get_time_str = Inr ''20200101_000000'',
      ckpt_has_checkpoint = True,
      ckpt_load =
        (\<lambda>path. if path = ''last.pth''
                then Inr \<lparr>s_iter = Some 9, s_epoch = Some 2, s_optimizer = Some PNone,
                          s_hooks = None\<rparr>
                else Inl ''no such file'')\<rparr>"

definition demo_runner :: "(pyval, pyval) runner" where
  "demo_runner =
     \<lparr>hooks = [], epoch = 0, iter = 0, inner_iter = 0, max_epochs = None, max_iters = None,
      mode = None, runner_type = ''iter'', work_dir = None, runner_cfg = None,
      optimizer = PNone, logged = [], model = PyModel ''Detector'' None,
      model_name = ''Detector'', rank = 0, world_size = 1, timestamp = ''20200101_000000''\<rparr>"

text \<open>Arguments of a construction with that model, a valid directory and checkpoint settings.\<close>

definition demo_args :: "work_dir_arg \<Rightarrow> int option \<Rightarrow> int option \<Rightarrow> pyval init_args" where
  "demo_args wd iters epochs =
     \<lparr>arg_model = PyModel ''Detector'' None, arg_optimizer = PNone, arg_work_dir = wd,
      arg_max_iters = iters, arg_max_epochs = epochs,
      arg_cfg = Some \<lparr>checkpoint_by_epoch = True, checkpoint_period = 1\<rparr>\<rparr>"

definition demo_hook :: "string \<Rightarrow> pyval \<Rightarrow> pyval hook" where
  "demo_hook k s = \<lparr>kind = k, priority = None, hstate = s\<rparr>"

section \<open>Properties of the registry\<close>

lemma insert_scan_split:
  assumes "\<forall>x \<in> set hs. priority x \<noteq> None"
    and "n \<le> length hs"
    and "\<forall>j. n \<le> j \<and> j < length hs \<longrightarrow> p < prio (hs ! j)"
  shows "\<exists>xs ys. insert_scan n p h hs = Inr (xs @ h # ys) \<and> hs = xs @ ys
           \<and> (\<forall>y \<in> set ys. p < prio y) \<and> (xs \<noteq> [] \<longrightarrow> prio (last xs) \<le> p)"
  using assms
proof (induction n)
  case 0
  have "\<forall>y \<in> set hs. p < prio y"
    using 0 by (auto simp: in_set_conv_nth)
  then show ?case by auto
next
  case (Suc i)
  from Suc.prems have i: "i < length hs" by simp
  then obtain q where q: "priority (hs ! i) = Some q"
    using Suc.prems(1) by (metis nth_mem option.exhaust)
  show ?case
  proof (cases "q \<le> p")
    case True
    let ?xs = "take (Suc i) hs" and ?ys = "drop (Suc i) hs"
    have "last ?xs = hs ! i"
      using i by (simp add: take_Suc_conv_app_nth)
    moreover have "\<forall>y \<in> set ?ys. p < prio y"
    proof
      fix y assume "y \<in> set ?ys"
      then obtain k where "k < length ?ys" "y = ?ys ! k"
        by (auto simp: in_set_conv_nth)
      then show "p < prio y" using Suc.prems(3) i by simp
    qed
    ultimately show ?thesis
      using q True by (intro exI[of _ ?xs] exI[of _ ?ys]) (simp add: prio_def)
  next
    case False
    have "\<forall>j. i \<le> j \<and> j < length hs \<longrightarrow> p < prio (hs ! j)"
    proof (intro allI impI)
      fix j assume j: "i \<le> j \<and> j < length hs"
      show "p < prio (hs ! j)"
      proof (cases "j = i")
        case True then show ?thesis using q False by (simp add: prio_def)
      next
        case False then show ?thesis using j Suc.prems(3) by simp
      qed
    qed
    then show ?thesis
      using Suc.IH[OF Suc.prems(1)] i q False by simp
  qed
qed

lemma sorted_last_bound:
  assumes "sorted (map f xs)" "xs \<noteq> []" "x \<in> set xs"
  shows "f x \<le> f (last xs)"
proof -
  from assms(3) obtain k where k: "k < length xs" "x = xs ! k"
    by (auto simp: in_set_conv_nth)
  have "map f xs ! k \<le> map f xs ! (length xs - 1)"
    using assms(1) k by (intro sorted_nth_mono) auto
  then show ?thesis using k assms(2) by (simp add: last_conv_nth)
qed

lemma insert_scan_sorted:
  assumes "registry_ok hs"
  shows "\<exists>xs ys. insert_scan (length hs) p h hs = Inr (xs @ h # ys) \<and> hs = xs @ ys
           \<and> (\<forall>x \<in> set xs. prio x \<le> p) \<and> (\<forall>y \<in> set ys. p < prio y)"
proof -
  from assms have a: "\<forall>x \<in> set hs. priority x \<noteq> None" and s: "sorted (map prio hs)"
    by (simp_all add: registry_ok_def)
  have "\<exists>xs ys. insert_scan (length hs) p h hs = Inr (xs @ h # ys) \<and> hs = xs @ ys
           \<and> (\<forall>y \<in> set ys. p < prio y) \<and> (xs \<noteq> [] \<longrightarrow> prio (last xs) \<le> p)"
    by (rule insert_scan_split[OF a]) simp_all
  then obtain xs ys where r: "insert_scan (length hs) p h hs = Inr (xs @ h # ys)" "hs = xs @ ys"
    "\<forall>y \<in> set ys. p < prio y" "xs \<noteq> [] \<longrightarrow> prio (last xs) \<le> p"
    by blast
  have "\<forall>x \<in> set xs. prio x \<le> p"
  proof
    fix x assume x: "x \<in> set xs"
    then have ne: "xs \<noteq> []" by auto
    have "sorted (map prio xs)" using s r(2) by (simp add: sorted_append)
    then have "prio x \<le> prio (last xs)" using ne x by (rule sorted_last_bound)
    then show "prio x \<le> p" using r(4) ne by simp
  qed
  then show ?thesis using r by blast
qed

lemma register_hook_step:
  assumes "registry_ok (hooks r)"
  shows "(hooks (snd (snd (register_hook env obj a r))) = hooks r \<and> registered env [(obj, a)] = [])
       \<or> (\<exists>xs ys h' p. hooks r = xs @ ys
             \<and> hooks (snd (snd (register_hook env obj a r))) = xs @ h' # ys
             \<and> registered env [(obj, a)] = [h'] \<and> priority h' = Some p
             \<and> (\<forall>x \<in> set xs. prio x \<le> p) \<and> (\<forall>y \<in> set ys. p < prio y))"
proof (cases obj)
  case OtherObj
  then show ?thesis by (simp add: register_hook_def)
next
  case (HookObj h)
  show ?thesis
  proof (cases "priority h \<noteq> None")
    case True
    then show ?thesis using HookObj by (simp add: register_hook_def)
  next
    case False
    show ?thesis
    proof (cases "get_priority env a")
      case (Inl m)
      then show ?thesis using HookObj False by (simp add: register_hook_def)
    next
      case (Inr p)
      let ?h = "h\<lparr>priority := Some p\<rparr>"
      obtain xs ys where r: "insert_scan (length (hooks r)) p ?h (hooks r) = Inr (xs @ ?h # ys)"
        "hooks r = xs @ ys" "\<forall>x \<in> set xs. prio x \<le> p" "\<forall>y \<in> set ys. p < prio y"
        using insert_scan_sorted[OF assms, of p ?h] by blast
      have "hooks (snd (snd (register_hook env obj a r))) = xs @ ?h # ys"
        using HookObj False Inr r(1) by (simp add: register_hook_def Let_def)
      moreover have "registered env [(obj, a)] = [?h]"
        using HookObj False Inr by simp
      ultimately show ?thesis using r(2-4) by (intro disjI2) fastforce
    qed
  qed
qed

lemma registered_Cons: "registered env (x # reqs) = registered env [x] @ registered env reqs"
proof -
  obtain obj a where x: "x = (obj, a)" by (cases x)
  show ?thesis unfolding x by (cases obj) (auto split: sum.splits)
qed

lemma register_hook_keeps_ok:
  assumes "registry_ok (hooks r)"
  shows "registry_ok (hooks (snd (snd (register_hook env obj a r))))"
  using register_hook_step[OF assms, of env obj a]
proof (elim disjE exE conjE)
  fix xs ys h' p
  assume a: "hooks r = xs @ ys" "hooks (snd (snd (register_hook env obj a r))) = xs @ h' # ys"
    "priority h' = Some p" "\<forall>x \<in> set xs. prio x \<le> p" "\<forall>y \<in> set ys. p < prio y"
  have "prio h' = p" using a(3) by (simp add: prio_def)
  then show ?thesis
    using assms a unfolding registry_ok_def
    by (auto simp: sorted_append less_imp_le)
qed (use assms in simp)

lemma register_hook_filter:
  assumes "registry_ok (hooks r)"
  shows "filter (\<lambda>h. priority h = Some k) (hooks (snd (snd (register_hook env obj a r))))
       = filter (\<lambda>h. priority h = Some k) (hooks r)
         @ filter (\<lambda>h. priority h = Some k) (registered env [(obj, a)])"
  using register_hook_step[OF assms, of env obj a]
proof (elim disjE exE conjE)
  fix xs ys h' p
  assume a: "hooks r = xs @ ys" "hooks (snd (snd (register_hook env obj a r))) = xs @ h' # ys"
    "registered env [(obj, a)] = [h']"
    "priority h' = Some p" "\<forall>x \<in> set xs. prio x \<le> p" "\<forall>y \<in> set ys. p < prio y"
  have ok: "\<forall>y \<in> set ys. priority y \<noteq> None"
    using assms a(1) by (simp add: registry_ok_def)
  show ?thesis
  proof (cases "p = k")
    case True
    have "filter (\<lambda>h. priority h = Some k) ys = []"
      using a(6) True by (auto simp: filter_empty_conv prio_def)
    then show ?thesis using a True by simp
  next
    case False
    then show ?thesis using a by simp
  qed
qed simp

text \<open>
  C1. Whatever sequence of \<^verbatim>\<open>register_hook\<close> calls is made on a runner whose registry
  is sorted, with integer or symbolic priorities, the registry stays sorted by
  non-decreasing priority, and for every priority value the hooks of that priority are the
  ones the registry held before followed by the newly registered ones in call order.
\<close>

theorem register_hook_sorted_stable:
  assumes "registry_ok (hooks r)"
  shows "registry_ok (hooks (register_hooks env reqs r))
       \<and> (\<forall>k. filter (\<lambda>h. priority h = Some k) (hooks (register_hooks env reqs r))
              = filter (\<lambda>h. priority h = Some k) (hooks r)
                @ filter (\<lambda>h. priority h = Some k) (registered env reqs))"
  using assms
proof (induction reqs arbitrary: r)
  case Nil
  then show ?case by simp
next
  case (Cons x reqs)
  obtain obj a where x: "x = (obj, a)" by (cases x)
  let ?r = "snd (snd (register_hook env obj a r))"
  have ok: "registry_ok (hooks ?r)" using Cons.prems by (rule register_hook_keeps_ok)
  have "registered env (x # reqs) = registered env [(obj, a)] @ registered env reqs"
    using registered_Cons[of env x reqs] x by simp
  then show ?case
    using Cons.IH[OF ok] register_hook_filter[OF Cons.prems, of _ env obj a] x by simp
qed


text \<open>Registering A (10), B (10), C (5) in this order on an empty registry gives C, A, B.\<close>

theorem register_hook_sorted_stable_witness:
  "registry_ok (hooks demo_runner)
   \<and> registry_ok (hooks (register_hooks demo_env
        [(HookObj (demo_hook ''A'' PNone), PrioInt 10),
         (HookObj (demo_hook ''B'' PNone), PrioInt 10),
         (HookObj (demo_hook ''C'' PNone), PrioInt 5)] demo_runner))
   \<and> map kind (hooks (register_hooks demo_env
        [(HookObj (demo_hook ''A'' PNone), PrioInt 10),
         (HookObj (demo_hook ''B'' PNone), PrioInt 10),
         (HookObj (demo_hook ''C'' PNone), PrioInt 5)] demo_runner)) = [''C'', ''A'', ''B'']"
proof -
  have ok: "registry_ok (hooks demo_runner)"
    by (simp add: registry_ok_def demo_runner_def)
  have order: "map kind (hooks (register_hooks demo_env
        [(HookObj (demo_hook ''A'' PNone), PrioInt 10),
         (HookObj (demo_hook ''B'' PNone), PrioInt 10),
         (HookObj (demo_hook ''C'' PNone), PrioInt 5)] demo_runner)) = [''C'', ''A'', ''B'']"
    by (simp add: register_hook_def demo_env_def demo_runner_def demo_hook_def
        demo_get_priority_def Let_def)
  show ?thesis
    using ok order register_hook_sorted_stable[OF ok, of demo_env
        "[(HookObj (demo_hook ''A'' PNone), PrioInt 10),
          (HookObj (demo_hook ''B'' PNone), PrioInt 10),
          (HookObj (demo_hook ''C'' PNone), PrioInt 5)]"]
    by simp
qed

lemma insert_scan_Inr:
  assumes "insert_scan n p h hs = Inr hs'" and "n \<le> length hs"
  shows "\<exists>xs ys. hs = xs @ ys \<and> hs' = xs @ h # ys"
  using assms
proof (induction n)
  case 0
  then have "hs = [] @ hs \<and> hs' = [] @ h # hs" by simp
  then show ?case by blast
next
  case (Suc i)
  show ?case
  proof (cases "priority (hs ! i)")
    case None
    then show ?thesis using Suc.prems by simp
  next
    case (Some q)
    show ?thesis
    proof (cases "q \<le> p")
      case True
      then have "hs' = take (Suc i) hs @ h # drop (Suc i) hs"
        using Suc.prems Some by simp
      then show ?thesis
        by (intro exI[of _ "take (Suc i) hs"] exI[of _ "drop (Suc i) hs"]) simp
    next
      case False
      then show ?thesis using Suc Some by simp
    qed
  qed
qed

text \<open>
  C6. \<^verbatim>\<open>register_hook\<close> raises its \<^verbatim>\<open>ValueError\<close> exactly when the argument is a hook
  that already has a \<^verbatim>\<open>priority\<close> attribute; it then leaves the hook and the runner as
  they were. When it returns normally, the hook had no priority before, has the resolved
  one afterwards, and has been inserted once into the registry.
\<close>

theorem register_hook_reserved_priority:
  \<open>(fst (register_hook env obj a r)
       = Some (ValueError ''"priority" is a reserved attribute for hooks'')
     \<longleftrightarrow> (\<exists>h. obj = HookObj h \<and> priority h \<noteq> None))
   \<and> (fst (register_hook env obj a r)
         = Some (ValueError ''"priority" is a reserved attribute for hooks'')
       \<longrightarrow> snd (register_hook env obj a r) = (obj, r))
   \<and> (fst (register_hook env obj a r) = None
       \<longrightarrow> (\<exists>h p xs ys. obj = HookObj h \<and> priority h = None \<and> get_priority env a = Inr p
             \<and> fst (snd (register_hook env obj a r)) = HookObj (h\<lparr>priority := Some p\<rparr>)
             \<and> hooks r = xs @ ys
             \<and> snd (snd (register_hook env obj a r))
                 = r\<lparr>hooks := xs @ h\<lparr>priority := Some p\<rparr> # ys\<rparr>))\<close>
proof (cases obj)
  case OtherObj
  then show ?thesis by (simp add: register_hook_def)
next
  case (HookObj h)
  show ?thesis
  proof (cases "priority h")
    case (Some q)
    then show ?thesis using HookObj by (simp add: register_hook_def)
  next
    case None
    show ?thesis
    proof (cases "get_priority env a")
      case (Inl m)
      then show ?thesis using HookObj None by (simp add: register_hook_def)
    next
      case (Inr p)
      show ?thesis
      proof (cases "insert_scan (length (hooks r)) p (h\<lparr>priority := Some p\<rparr>) (hooks r)")
        case (Inl e)
        then have "e = AttributeError ''priority''"
        proof -
          have "\<And>n. insert_scan n p (h\<lparr>priority := Some p\<rparr>) (hooks r) = Inl e
                  \<Longrightarrow> e = AttributeError ''priority''"
          proof -
            fix n
            show "insert_scan n p (h\<lparr>priority := Some p\<rparr>) (hooks r) = Inl e
                  \<Longrightarrow> e = AttributeError ''priority''"
              by (induction n) (auto split: option.splits if_splits)
          qed
          then show ?thesis using Inl by blast
        qed
        then show ?thesis
          using HookObj None Inr Inl by (simp add: register_hook_def Let_def)
      next
        case (Inr hs')
        then obtain xs ys where "hooks r = xs @ ys" "hs' = xs @ h\<lparr>priority := Some p\<rparr> # ys"
          using insert_scan_Inr[of "length (hooks r)" p "h\<lparr>priority := Some p\<rparr>" "hooks r" hs']
          by auto
        then have "register_hook env obj a r
            = (None, HookObj (h\<lparr>priority := Some p\<rparr>),
               r\<lparr>hooks := xs @ h\<lparr>priority := Some p\<rparr> # ys\<rparr>)"
          using HookObj None \<open>get_priority env a = Inr p\<close> Inr
          by (simp add: register_hook_def Let_def)
        then show ?thesis
          using HookObj None \<open>get_priority env a = Inr p\<close> \<open>hooks r = xs @ ys\<close>
          by auto
      qed
    qed
  qed
qed

theorem register_hook_reserved_priority_witness:
  \<open>fst (register_hook demo_env (HookObj ((demo_hook ''A'' PNone)\<lparr>priority := Some 3\<rparr>))
          (PrioInt 10) demo_runner)
     = Some (ValueError ''"priority" is a reserved attribute for hooks'')
   \<and> snd (register_hook demo_env (HookObj ((demo_hook ''A'' PNone)\<lparr>priority := Some 3\<rparr>))
          (PrioInt 10) demo_runner)
     = (HookObj ((demo_hook ''A'' PNone)\<lparr>priority := Some 3\<rparr>), demo_runner)
   \<and> fst (register_hook demo_env (HookObj (demo_hook ''A'' PNone)) (PrioName ''LOW'') demo_runner)
     = None
   \<and> fst (snd (register_hook demo_env (HookObj (demo_hook ''A'' PNone)) (PrioName ''LOW'')
          demo_runner))
     = HookObj ((demo_hook ''A'' PNone)\<lparr>priority := Some 70\<rparr>)\<close>
proof -
  have a: \<open>fst (register_hook demo_env (HookObj ((demo_hook ''A'' PNone)\<lparr>priority := Some 3\<rparr>))
          (PrioInt 10) demo_runner)
     = Some (ValueError ''"priority" is a reserved attribute for hooks'')\<close>
    by (simp add: register_hook_def demo_hook_def)
  have b: "fst (register_hook demo_env (HookObj (demo_hook ''A'' PNone)) (PrioName ''LOW'')
      demo_runner) = None"
    by (simp add: register_hook_def demo_hook_def demo_env_def demo_get_priority_def
        demo_runner_def Let_def)
  have c: "get_priority demo_env (PrioName ''LOW'') = Inr 70"
    by (simp add: demo_env_def demo_get_priority_def)
  show ?thesis
    using a b c
      register_hook_reserved_priority[of demo_env
        "HookObj ((demo_hook ''A'' PNone)\<lparr>priority := Some 3\<rparr>)" "PrioInt 10" demo_runner]
      register_hook_reserved_priority[of demo_env
        "HookObj (demo_hook ''A'' PNone)" "PrioName ''LOW''" demo_runner]
    by auto
qed

lemma run_callbacks_length:
  assumes "\<forall>j r'. length (hooks (snd (hook_callback env fn_name j r'))) = length (hooks r')"
  shows "length (hooks (run_callbacks env fn_name k r)) = length (hooks r)"
  using assms by (induction k) simp_all

lemma call_hook_from_step:
  assumes "i < length (hooks (run_callbacks env fn_name i r))"
  shows "call_hook_from env fn_name i (run_callbacks env fn_name i r)
       = (case callback_raises env fn_name r i of
            Some m \<Rightarrow> Some (Some (External m), run_callbacks env fn_name (Suc i) r)
          | None \<Rightarrow> call_hook_from env fn_name (Suc i) (run_callbacks env fn_name (Suc i) r))"
proof -
  obtain x r' where c: "hook_callback env fn_name i (run_callbacks env fn_name i r) = (x, r')"
    by (cases "hook_callback env fn_name i (run_callbacks env fn_name i r)")
  show ?thesis
    using assms c
    by (subst call_hook_from.simps) (simp add: callback_raises_def split: option.splits)
qed

lemma call_hook_from_all:
  assumes "\<forall>j. i \<le> j \<and> j < n
             \<longrightarrow> j < length (hooks (run_callbacks env fn_name j r))
                 \<and> callback_raises env fn_name r j = None"
    and "length (hooks (run_callbacks env fn_name n r)) \<le> n"
    and "i \<le> n"
  shows "call_hook_from env fn_name i (run_callbacks env fn_name i r)
       = Some (None, run_callbacks env fn_name n r)"
  using assms
proof (induction "n - i" arbitrary: i)
  case 0
  then have "i = n" by simp
  then show ?case
    using 0 by (subst call_hook_from.simps) simp
next
  case (Suc d)
  then have i: "i < n" by simp
  then have "i < length (hooks (run_callbacks env fn_name i r))"
    and "callback_raises env fn_name r i = None"
    using Suc.prems(1) by simp_all
  then have "call_hook_from env fn_name i (run_callbacks env fn_name i r)
      = call_hook_from env fn_name (Suc i) (run_callbacks env fn_name (Suc i) r)"
    using call_hook_from_step[of i env fn_name r] by simp
  moreover have "call_hook_from env fn_name (Suc i) (run_callbacks env fn_name (Suc i) r)
      = Some (None, run_callbacks env fn_name n r)"
    using Suc.hyps(2) Suc.prems i by (intro Suc.hyps(1)) auto
  ultimately show ?case by simp
qed

lemma call_hook_from_fail:
  assumes "\<forall>j. i \<le> j \<and> j < k
             \<longrightarrow> j < length (hooks (run_callbacks env fn_name j r))
                 \<and> callback_raises env fn_name r j = None"
    and "k < length (hooks (run_callbacks env fn_name k r))"
    and "callback_raises env fn_name r k = Some m"
    and "i \<le> k"
  shows "call_hook_from env fn_name i (run_callbacks env fn_name i r)
       = Some (Some (External m), run_callbacks env fn_name (Suc k) r)"
  using assms
proof (induction "k - i" arbitrary: i)
  case 0
  then have "i = k" by simp
  then show ?case
    using call_hook_from_step[of k env fn_name r] 0 by simp
next
  case (Suc d)
  then have i: "i < k" by simp
  then have "i < length (hooks (run_callbacks env fn_name i r))"
    and "callback_raises env fn_name r i = None"
    using Suc.prems(1) by simp_all
  then have "call_hook_from env fn_name i (run_callbacks env fn_name i r)
      = call_hook_from env fn_name (Suc i) (run_callbacks env fn_name (Suc i) r)"
    using call_hook_from_step[of i env fn_name r] by simp
  moreover have "call_hook_from env fn_name (Suc i) (run_callbacks env fn_name (Suc i) r)
      = Some (Some (External m), run_callbacks env fn_name (Suc k) r)"
    using Suc.hyps(2) Suc.prems i by (intro Suc.hyps(1)) auto
  ultimately show ?case by simp
qed

text \<open>
  C8. Let the callbacks leave the number of registered hooks as it is. Then \<^verbatim>\<open>call_hook\<close>
  returns or raises after finitely many calls, and it calls the named callback of the
  registered hooks one after the other in registry order, each with the runner as its
  predecessor left it. If none raises, all have been called. If the callback of hook \<open>k\<close>
  is the first to raise, its exception is the outcome of the call and the runner is as
  that callback left it: no later callback has been called, and what the earlier ones did
  stays.
\<close>

theorem call_hook_in_order:
  assumes "\<forall>j r'. length (hooks (snd (hook_callback env fn_name j r'))) = length (hooks r')"
  shows "((\<forall>j < length (hooks r). callback_raises env fn_name r j = None)
          \<longrightarrow> call_hook env fn_name r
              = Some (None, run_callbacks env fn_name (length (hooks r)) r))
       \<and> (k < length (hooks r) \<and> (\<forall>j < k. callback_raises env fn_name r j = None)
            \<and> callback_raises env fn_name r k = Some m
          \<longrightarrow> call_hook env fn_name r
              = Some (Some (External m), run_callbacks env fn_name (Suc k) r))"
proof (intro conjI impI)
  have len: "\<And>j. length (hooks (run_callbacks env fn_name j r)) = length (hooks r)"
    using run_callbacks_length[OF assms] by simp
  {
    assume "\<forall>j < length (hooks r). callback_raises env fn_name r j = None"
    then show "call_hook env fn_name r
        = Some (None, run_callbacks env fn_name (length (hooks r)) r)"
      using call_hook_from_all[of 0 "length (hooks r)" env fn_name r] len
      by (simp add: call_hook_def)
  next
    assume "k < length (hooks r) \<and> (\<forall>j < k. callback_raises env fn_name r j = None)
        \<and> callback_raises env fn_name r k = Some m"
    then show "call_hook env fn_name r
        = Some (Some (External m), run_callbacks env fn_name (Suc k) r)"
      using call_hook_from_fail[of 0 k env fn_name r m] len
      by (simp add: call_hook_def)
  }
qed

text \<open>
  Two counting hooks are both called; with a failing hook between them the first is
  called, the exception surfaces and the last is not called.
\<close>

theorem call_hook_in_order_witness:
  "call_hook demo_env ''after_iter''
     (demo_runner\<lparr>hooks := [\<lparr>kind = ''A'', priority = Some 10, hstate = PInt 0\<rparr>,
                            \<lparr>kind = ''B'', priority = Some 20, hstate = PInt 5\<rparr>]\<rparr>)
   = Some (None,
       demo_runner\<lparr>hooks := [\<lparr>kind = ''A'', priority = Some 10, hstate = PInt 1\<rparr>,
                              \<lparr>kind = ''B'', priority = Some 20, hstate = PInt 6\<rparr>],
                     mode := Some ''after_iter''\<rparr>)
   \<and> call_hook demo_env ''after_iter''
       (demo_runner\<lparr>hooks := [\<lparr>kind = ''A'', priority = Some 10, hstate = PInt 0\<rparr>,
                              \<lparr>kind = ''F'', priority = Some 20, hstate = PNone\<rparr>,
                              \<lparr>kind = ''B'', priority = Some 30, hstate = PInt 5\<rparr>]\<rparr>)
     = Some (Some (External ''callback failed''),
         demo_runner\<lparr>hooks := [\<lparr>kind = ''A'', priority = Some 10, hstate = PInt 1\<rparr>,
                                \<lparr>kind = ''F'', priority = Some 20, hstate = PNone\<rparr>,
                                \<lparr>kind = ''B'', priority = Some 30, hstate = PInt 5\<rparr>],
                       mode := Some ''after_iter''\<rparr>)"
proof -
  let ?r = "demo_runner\<lparr>hooks := [\<lparr>kind = ''A'', priority = Some 10, hstate = PInt 0\<rparr>,
                            \<lparr>kind = ''B'', priority = Some 20, hstate = PInt 5\<rparr>]\<rparr>"
  let ?q = "demo_runner\<lparr>hooks := [\<lparr>kind = ''A'', priority = Some 10, hstate = PInt 0\<rparr>,
                              \<lparr>kind = ''F'', priority = Some 20, hstate = PNone\<rparr>,
                              \<lparr>kind = ''B'', priority = Some 30, hstate = PInt 5\<rparr>]\<rparr>"
  have keep: "\<forall>j r'. length (hooks (snd (hook_callback demo_env ''after_iter'' j r')))
      = length (hooks r')"
    by (simp add: demo_env_def split: pyval.splits)
  have r0: "callback_raises demo_env ''after_iter'' ?r 0 = None"
    by (simp add: callback_raises_def demo_env_def)
  have r1: "callback_raises demo_env ''after_iter'' ?r (Suc 0) = None"
    by (simp add: callback_raises_def demo_env_def)
  have all: "\<forall>j < length (hooks ?r). callback_raises demo_env ''after_iter'' ?r j = None"
    using r0 r1 by (simp add: less_Suc_eq)
  have run_r: "run_callbacks demo_env ''after_iter'' (length (hooks ?r)) ?r
      = demo_runner\<lparr>hooks := [\<lparr>kind = ''A'', priority = Some 10, hstate = PInt 1\<rparr>,
                               \<lparr>kind = ''B'', priority = Some 20, hstate = PInt 6\<rparr>],
                      mode := Some ''after_iter''\<rparr>"
    by (simp add: demo_env_def)
  have q0: "callback_raises demo_env ''after_iter'' ?q 0 = None"
    by (simp add: callback_raises_def demo_env_def)
  have q1: "callback_raises demo_env ''after_iter'' ?q (Suc 0) = Some ''callback failed''"
    by (simp add: callback_raises_def demo_env_def)
  have run_q: "run_callbacks demo_env ''after_iter'' (Suc (Suc 0)) ?q
      = demo_runner\<lparr>hooks := [\<lparr>kind = ''A'', priority = Some 10, hstate = PInt 1\<rparr>,
                               \<lparr>kind = ''F'', priority = Some 20, hstate = PNone\<rparr>,
                               \<lparr>kind = ''B'', priority = Some 30, hstate = PInt 5\<rparr>],
                      mode := Some ''after_iter''\<rparr>"
    by (simp add: demo_env_def)
  show ?thesis
    using all run_r q0 q1 run_q
      call_hook_in_order[OF keep, of ?r 0 "''x''"]
      call_hook_in_order[OF keep, of ?q "Suc 0" "''callback failed''"]
    by simp
qed

section \<open>Properties of construction and resume\<close>

lemma insert_scan_error:
  "insert_scan n p h hs = Inl e \<Longrightarrow> e = AttributeError ''priority''"
  by (induction n) (auto split: option.splits if_splits)

lemma register_hook_not_budget_error:
  \<open>fst (register_hook env obj a r)
     \<noteq> Some (ValueError ''Only one of `max_epochs` or `max_iters` can be set.'')\<close>
proof (cases obj)
  case OtherObj
  then show ?thesis by (simp add: register_hook_def)
next
  case (HookObj h)
  show ?thesis
  proof (cases "priority h")
    case (Some q)
    then show ?thesis using HookObj by (simp add: register_hook_def)
  next
    case None
    show ?thesis
    proof (cases "get_priority env a")
      case (Inl m)
      then show ?thesis using HookObj None by (simp add: register_hook_def)
    next
      case (Inr p)
      show ?thesis
      proof (cases "insert_scan (length (hooks r)) p (h\<lparr>priority := Some p\<rparr>) (hooks r)")
        case (Inl e)
        then have "e = AttributeError ''priority''" by (rule insert_scan_error)
        then show ?thesis
          using HookObj None Inr Inl by (simp add: register_hook_def Let_def)
      next
        case (Inr hs)
        then show ?thesis
          using HookObj None \<open>get_priority env a = Inr p\<close>
          by (simp add: register_hook_def Let_def)
      qed
    qed
  qed
qed

lemma register_default_hook_not_budget_error:
  \<open>register_default_hook env r
     \<noteq> Inl (ValueError ''Only one of `max_epochs` or `max_iters` can be set.'')\<close>
proof (cases "is_main_process env")
  case (Inl x)
  then show ?thesis by (simp add: register_default_hook_def)
next
  case main: (Inr main)
  show ?thesis
  proof (cases "main \<and> runner_cfg r \<noteq> None")
    case False
    then show ?thesis
      using main by (auto simp: register_default_hook_def)
  next
    case True
    then obtain c where c: "runner_cfg r = Some c" by auto
    show ?thesis
    proof (cases "periodic_checkpointer env (checkpoint_by_epoch c) (checkpoint_period c)")
      case (Inl x)
      then show ?thesis using main True c by (simp add: register_default_hook_def)
    next
      case (Inr obj)
      obtain e obj' r' where reg: "register_hook env obj (PrioName ''NORMAL'') r = (e, obj', r')"
        by (cases "register_hook env obj (PrioName ''NORMAL'') r")
      then have \<open>e \<noteq> Some (ValueError ''Only one of `max_epochs` or `max_iters` can be set.'')\<close>
        using register_hook_not_budget_error[of env obj "PrioName ''NORMAL''" r] by simp
      then show ?thesis
        using main True c Inr reg by (cases e) (auto simp: register_default_hook_def)
    qed
  qed
qed

lemma register_default_hook_ok:
  assumes "default_hook_registers env (runner_cfg r)" and "hooks r = []"
  shows "\<exists>hs. register_default_hook env r = Inr (r\<lparr>hooks := hs\<rparr>)"
proof -
  from assms(1) obtain main where main: "is_main_process env = Inr main"
    by (auto simp: default_hook_registers_def split: sum.splits)
  show ?thesis
  proof (cases main)
    case False
    then have "register_default_hook env r = Inr (r\<lparr>hooks := []\<rparr>)"
      using main assms(2) by (simp add: register_default_hook_def)
    then show ?thesis by blast
  next
    case True
    then obtain c h p where c: "runner_cfg r = Some c"
      and h: "periodic_checkpointer env (checkpoint_by_epoch c) (checkpoint_period c)
                = Inr (HookObj h)" "priority h = None"
      and p: "get_priority env (PrioName ''NORMAL'') = Inr p"
      using assms(1) main
      by (auto simp: default_hook_registers_def split: option.splits pyobj.splits sum.splits)
    have "register_default_hook env r = Inr (r\<lparr>hooks := [h\<lparr>priority := Some p\<rparr>]\<rparr>)"
      using True main c h p assms(2)
      by (simp add: register_default_hook_def register_hook_def Let_def)
    then show ?thesis by blast
  qed
qed

lemma init_after_setup:
  assumes "setup_returns env args" and "arg_work_dir args \<noteq> WorkDirOther"
  shows "\<exists>m wd rk ws ts.
           init env args
           = (if arg_max_epochs args \<noteq> None \<and> arg_max_iters args \<noteq> None
              then Inl (ValueError ''Only one of `max_epochs` or `max_iters` can be set.'')
              else register_default_hook env
                     \<lparr>hooks = [], epoch = 0, iter = 0, inner_iter = 0,
                      max_epochs = arg_max_epochs args, max_iters = arg_max_iters args,
                      mode = None, runner_type = ''iter'', work_dir = wd,
                      runner_cfg = arg_cfg args, optimizer = arg_optimizer args, logged = [],
                      model = m,
                      model_name = (case module_attr m of
                                      Some inner \<Rightarrow> class_name inner
                                    | None \<Rightarrow> class_name m),
                      rank = rk, world_size = ws, timestamp = ts\<rparr>)"
proof -
  from assms obtain m where
    m: "create_ddp_model env (arg_model args) [(''broadcast_buffers'', PBool False)] = Inr m"
    by (auto simp: setup_returns_def split: sum.splits)
  from assms obtain wd where wd: "init_work_dir env (arg_work_dir args) = Inr wd"
    and ck: "detection_checkpointer env (arg_model args) wd = None"
    by (cases "arg_work_dir args") (auto simp: setup_returns_def init_work_dir_def)
  from assms obtain rk ws ts where q: "cvcore_get_rank env = Inr rk"
    "cvcore_get_world_size env = Inr ws" "get_time_str env = Inr ts"
    by (cases "arg_work_dir args") (auto simp: setup_returns_def split: sum.splits)
  show ?thesis
    using m wd ck q by (simp add: init_def) blast
qed

text \<open>
  C7. Let the collaborators that \<^verbatim>\<open>__init__\<close> calls before the budget check return
  normally. A working directory that is neither a string nor absent makes construction
  raise its \<^verbatim>\<open>TypeError\<close>, whatever the budgets. With a string or absent working directory,
  construction raises the budget \<^verbatim>\<open>ValueError\<close> exactly when both \<^verbatim>\<open>max_epochs\<close> and
  \<^verbatim>\<open>max_iters\<close> are given; and when at most one is given and the default hook registers,
  it returns a runner that carries the given budgets and has its counters at 0 and an
  empty mode.
\<close>

theorem init_budget_exclusive:
  assumes "setup_returns env args"
  shows \<open>(arg_work_dir args = WorkDirOther
           \<longrightarrow> init env args = Inl (TypeError ''"work_dir" must be a str or None''))
       \<and> (arg_work_dir args \<noteq> WorkDirOther
           \<longrightarrow> (init env args
                  = Inl (ValueError ''Only one of `max_epochs` or `max_iters` can be set.'')
                \<longleftrightarrow> arg_max_epochs args \<noteq> None \<and> arg_max_iters args \<noteq> None))
       \<and> (arg_work_dir args \<noteq> WorkDirOther
            \<and> \<not> (arg_max_epochs args \<noteq> None \<and> arg_max_iters args \<noteq> None)
            \<and> default_hook_registers env (arg_cfg args)
           \<longrightarrow> (\<exists>r. init env args = Inr r
                  \<and> max_epochs r = arg_max_epochs args \<and> max_iters r = arg_max_iters args
                  \<and> iter r = 0 \<and> epoch r = 0 \<and> inner_iter r = 0 \<and> mode r = None))\<close>
proof (intro conjI impI)
  assume "arg_work_dir args = WorkDirOther"
  then show \<open>init env args = Inl (TypeError ''"work_dir" must be a str or None'')\<close>
    using assms
    by (auto simp: setup_returns_def init_def init_work_dir_def split: sum.splits)
next
  assume wd: "arg_work_dir args \<noteq> WorkDirOther"
  show \<open>init env args = Inl (ValueError ''Only one of `max_epochs` or `max_iters` can be set.'')
        \<longleftrightarrow> arg_max_epochs args \<noteq> None \<and> arg_max_iters args \<noteq> None\<close>
  proof (cases "arg_max_epochs args \<noteq> None \<and> arg_max_iters args \<noteq> None")
    case True
    then show ?thesis using init_after_setup[OF assms wd] by auto
  next
    case False
    then obtain r where "init env args = register_default_hook env r"
      using init_after_setup[OF assms wd] by auto
    then show ?thesis
      using False register_default_hook_not_budget_error[of env r] by simp
  qed
next
  assume a: "arg_work_dir args \<noteq> WorkDirOther
            \<and> \<not> (arg_max_epochs args \<noteq> None \<and> arg_max_iters args \<noteq> None)
            \<and> default_hook_registers env (arg_cfg args)"
  then obtain m wd rk ws ts where
    i: "init env args = register_default_hook env
                     \<lparr>hooks = [], epoch = 0, iter = 0, inner_iter = 0,
                      max_epochs = arg_max_epochs args, max_iters = arg_max_iters args,
                      mode = None, runner_type = ''iter'', work_dir = wd,
                      runner_cfg = arg_cfg args, optimizer = arg_optimizer args, logged = [],
                      model = m,
                      model_name = (case module_attr m of
                                      Some inner \<Rightarrow> class_name inner
                                    | None \<Rightarrow> class_name m),
                      rank = rk, world_size = ws, timestamp = ts\<rparr>"
    using init_after_setup[OF assms, of] by (auto split: if_splits)
  let ?r = "\<lparr>hooks = [], epoch = 0, iter = 0, inner_iter = 0,
                      max_epochs = arg_max_epochs args, max_iters = arg_max_iters args,
                      mode = None, runner_type = ''iter'', work_dir = wd,
                      runner_cfg = arg_cfg args, optimizer = arg_optimizer args, logged = [],
                      model = m,
                      model_name = (case module_attr m of
                                      Some inner \<Rightarrow> class_name inner
                                    | None \<Rightarrow> class_name m),
                      rank = rk, world_size = ws, timestamp = ts\<rparr>"
  obtain hs where "register_default_hook env ?r = Inr (?r\<lparr>hooks := hs\<rparr>)"
    using register_default_hook_ok[of env ?r] a by auto
  then show "\<exists>r. init env args = Inr r
                  \<and> max_epochs r = arg_max_epochs args \<and> max_iters r = arg_max_iters args
                  \<and> iter r = 0 \<and> epoch r = 0 \<and> inner_iter r = 0 \<and> mode r = None"
    using i by simp
qed

text \<open>
  Both budgets, one budget, no budget, and a working directory that is a number, on one
  process with checkpoint settings.
\<close>

theorem init_budget_exclusive_witness:
  \<open>init demo_env (demo_args (WorkDirStr ''work'') (Some 100) (Some 12))
     = Inl (ValueError ''Only one of `max_epochs` or `max_iters` can be set.'')
   \<and> (\<exists>r. init demo_env (demo_args (WorkDirStr ''work'') (Some 100) None) = Inr r
          \<and> max_iters r = Some 100 \<and> max_epochs r = None)
   \<and> (\<exists>r. init demo_env (demo_args WorkDirNone None None) = Inr r
          \<and> max_iters r = None \<and> max_epochs r = None)
   \<and> init demo_env (demo_args WorkDirOther (Some 100) (Some 12))
     = Inl (TypeError ''"work_dir" must be a str or None'')\<close>
proof -
  have s: "\<And>wd i e. setup_returns demo_env (demo_args wd i e)"
    by (simp add: setup_returns_def demo_args_def demo_env_def create_ddp_model_def
        split: work_dir_arg.splits)
  have d: "\<And>wd i e. default_hook_registers demo_env (arg_cfg (demo_args wd i e))"
    by (simp add: default_hook_registers_def demo_args_def demo_env_def demo_get_priority_def)
  have f: "\<And>wd i e. arg_work_dir (demo_args wd i e) = wd
      \<and> arg_max_iters (demo_args wd i e) = i \<and> arg_max_epochs (demo_args wd i e) = e"
    by (simp add: demo_args_def)
  show ?thesis
    using
      init_budget_exclusive[OF s, of "WorkDirStr ''work''" "Some 100" "Some 12"]
      init_budget_exclusive[OF s, of "WorkDirStr ''work''" "Some 100" None]
      init_budget_exclusive[OF s, of WorkDirNone None None]
      init_budget_exclusive[OF s, of WorkDirOther "Some 100" "Some 12"]
      d f
    by auto
qed

text \<open>
  With neither budget set, construction still fails when the working directory is neither
  a string nor absent.
\<close>

theorem init_neither_budget_counterexample:
  \<open>arg_max_epochs (demo_args WorkDirOther None None) = None
   \<and> arg_max_iters (demo_args WorkDirOther None None) = None
   \<and> init demo_env (demo_args WorkDirOther None None)
     = Inl (TypeError ''"work_dir" must be a str or None'')\<close>
  by (simp add: init_def init_work_dir_def create_ddp_model_def demo_args_def demo_env_def)

lemma load_hooks_state_counters:
  "iter (snd (load_hooks_state env es r)) = iter r
   \<and> epoch (snd (load_hooks_state env es r)) = epoch r
   \<and> inner_iter (snd (load_hooks_state env es r)) = inner_iter r"
proof (induction es arbitrary: r)
  case Nil
  show ?case by simp
next
  case (Cons e es)
  obtain key val where e: "e = (key, val)" by (cases e)
  obtain res hs where l: "load_hook_entry env key val (hooks r) = (res, hs)"
    by (cases "load_hook_entry env key val (hooks r)")
  show ?case
    unfolding e using l Cons.IH by (cases res) simp_all
qed

lemma load_state_dict_counters:
  assumes "fst (load_state_dict env sd r) = None"
  shows "s_iter sd = Some (iter (snd (load_state_dict env sd r)))
       \<and> s_epoch sd = Some (epoch (snd (load_state_dict env sd r)))"
proof -
  from assms obtain i e ov where sd: "s_iter sd = Some i" "s_epoch sd = Some e"
    "s_optimizer sd = Some ov"
    by (auto simp: load_state_dict_def split: option.splits)
  obtain x ost where o: "opt_load_state_dict env ov (optimizer r) = (x, ost)"
    by (cases "opt_load_state_dict env ov (optimizer r)")
  with assms sd have "x = None"
    by (cases x) (simp_all add: load_state_dict_def)
  then have "load_state_dict env sd r
      = load_hooks_state env (case s_hooks sd of None \<Rightarrow> [] | Some es \<Rightarrow> es)
          (r\<lparr>iter := i, epoch := e, optimizer := ost\<rparr>)"
    using sd o by (simp add: load_state_dict_def)
  then show ?thesis
    using sd load_hooks_state_counters[of env _ "r\<lparr>iter := i, epoch := e, optimizer := ost\<rparr>"]
    by simp
qed

text \<open>
  C2. When resume is requested and the storage reports a checkpoint, and the restore of the
  stored snapshot returns normally, \<^verbatim>\<open>resume_or_load\<close> returns normally with \<open>iter\<close> and
  \<open>epoch\<close> one above the snapshot's values. When resume is not requested or there is no
  checkpoint, \<open>iter\<close> and \<open>epoch\<close> are what they were before the call.
\<close>

theorem resume_or_load_counters:
  "(resume \<and> ckpt_has_checkpoint env \<and> ckpt_load env path = Inr sd
      \<and> fst (load_state_dict env sd r) = None
    \<longrightarrow> fst (resume_or_load env path resume r) = None
        \<and> Some (iter (snd (resume_or_load env path resume r))) = map_option (\<lambda>i. i + 1) (s_iter sd)
        \<and> Some (epoch (snd (resume_or_load env path resume r)))
            = map_option (\<lambda>e. e + 1) (s_epoch sd))
   \<and> (\<not> (resume \<and> ckpt_has_checkpoint env)
    \<longrightarrow> iter (snd (resume_or_load env path resume r)) = iter r
        \<and> epoch (snd (resume_or_load env path resume r)) = epoch r)"
proof (intro conjI impI)
  assume a: "resume \<and> ckpt_has_checkpoint env \<and> ckpt_load env path = Inr sd
      \<and> fst (load_state_dict env sd r) = None"
  obtain r' where l: "load_state_dict env sd r = (None, r')"
    using a by (cases "load_state_dict env sd r") auto
  have c: "s_iter sd = Some (iter r')" "s_epoch sd = Some (epoch r')"
    using load_state_dict_counters[of env sd r] a l by simp_all
  have res: "resume_or_load env path resume r
      = (None, r'\<lparr>iter := iter r' + 1, epoch := epoch r' + 1\<rparr>)"
    using a l by (simp add: resume_or_load_def checkpointer_resume_or_load_def)
  show "fst (resume_or_load env path resume r) = None" using res by simp
  show "Some (iter (snd (resume_or_load env path resume r))) = map_option (\<lambda>i. i + 1) (s_iter sd)"
    using res c by simp
  show "Some (epoch (snd (resume_or_load env path resume r)))
      = map_option (\<lambda>e. e + 1) (s_epoch sd)"
    using res c by simp
next
  assume n: "\<not> (resume \<and> ckpt_has_checkpoint env)"
  then have "snd (resume_or_load env path resume r) = r"
    by (cases "ckpt_load env path")
      (auto simp: resume_or_load_def checkpointer_resume_or_load_def)
  then show "iter (snd (resume_or_load env path resume r)) = iter r"
    and "epoch (snd (resume_or_load env path resume r)) = epoch r"
    by simp_all
qed

text \<open>A checkpoint taken at iteration 9 of epoch 2 resumes at iteration 10 of epoch 3.\<close>

theorem resume_or_load_counters_witness:
  "s_iter \<lparr>s_iter = Some 9, s_epoch = Some 2, s_optimizer = Some PNone, s_hooks = None\<rparr> = Some 9
   \<and> fst (resume_or_load demo_env ''last.pth'' True demo_runner) = None
   \<and> iter (snd (resume_or_load demo_env ''last.pth'' True demo_runner)) = 10
   \<and> epoch (snd (resume_or_load demo_env ''last.pth'' True demo_runner)) = 3
   \<and> iter (snd (resume_or_load demo_env ''last.pth'' False demo_runner)) = 0
   \<and> epoch (snd (resume_or_load demo_env ''last.pth'' False demo_runner)) = 0"
proof -
  have h: "ckpt_has_checkpoint demo_env"
    and l: "ckpt_load demo_env ''last.pth''
      = Inr \<lparr>s_iter = Some 9, s_epoch = Some 2, s_optimizer = Some PNone, s_hooks = None\<rparr>"
    by (simp_all add: demo_env_def)
  have ok: "fst (load_state_dict demo_env
      \<lparr>s_iter = Some 9, s_epoch = Some 2, s_optimizer = Some PNone, s_hooks = None\<rparr>
      demo_runner) = None"
    by (simp add: load_state_dict_def demo_env_def)
  have z: "iter demo_runner = 0" "epoch demo_runner = 0"
    by (simp_all add: demo_runner_def)
  show ?thesis
    using h l ok z
      resume_or_load_counters[of True demo_env "''last.pth''"
        "\<lparr>s_iter = Some 9, s_epoch = Some 2, s_optimizer = Some PNone, s_hooks = None\<rparr>"
        demo_runner]
      resume_or_load_counters[of False demo_env "''last.pth''"
        "\<lparr>s_iter = Some 9, s_epoch = Some 2, s_optimizer = Some PNone, s_hooks = None\<rparr>"
        demo_runner]
    by simp
qed

section \<open>Properties of snapshot and restore\<close>

lemma collect_hooks_state_pure:
  assumes "\<forall>h \<in> set hs. snd (hook_state_dict env h) = hstate h"
  shows "snd (collect_hooks_state env hs acc) = hs"
  using assms
proof (induction hs arbitrary: acc)
  case Nil
  show ?case by simp
next
  case (Cons h hs)
  obtain res s' where c: "hook_state_dict env h = (res, s')"
    by (cases "hook_state_dict env h")
  then have s': "s' = hstate h" using Cons.prems by simp
  show ?case
  proof (cases res)
    case (Inl m)
    then show ?thesis using c s' by simp
  next
    case (Inr sd)
    then show ?thesis using c s' Cons by (simp add: Let_def)
  qed
qed

text \<open>
  C9. When the \<^verbatim>\<open>state_dict()\<close> calls on the optimizer and on the hooks leave the state
  of their object as it is, \<^verbatim>\<open>state_dict\<close> leaves the runner as it is: counters, mode,
  hook list and its order, and every other attribute.
\<close>

theorem state_dict_no_side_effect:
  assumes "snd (opt_state_dict env (optimizer r)) = optimizer r"
    and "\<forall>h \<in> set (hooks r). snd (hook_state_dict env h) = hstate h"
  shows "snd (state_dict env r) = r"
proof -
  obtain res ost where o: "opt_state_dict env (optimizer r) = (res, ost)"
    by (cases "opt_state_dict env (optimizer r)")
  then have ost: "ost = optimizer r" using assms(1) by simp
  obtain hres hs where c: "collect_hooks_state env (hooks r) [] = (hres, hs)"
    by (cases "collect_hooks_state env (hooks r) []")
  then have hs: "hs = hooks r"
    using collect_hooks_state_pure[OF assms(2), of "[]"] by simp
  show ?thesis
    using o ost c hs by (cases res; cases hres) (simp_all add: state_dict_def)
qed

theorem state_dict_no_side_effect_witness:
  "snd (opt_state_dict demo_env (optimizer (demo_runner\<lparr>hooks :=
         [\<lparr>kind = ''A'', priority = Some 10, hstate = PInt 4\<rparr>,
          \<lparr>kind = ''B'', priority = Some 50, hstate = PNone\<rparr>], iter := 7, epoch := 1\<rparr>)))
     = optimizer (demo_runner\<lparr>hooks :=
         [\<lparr>kind = ''A'', priority = Some 10, hstate = PInt 4\<rparr>,
          \<lparr>kind = ''B'', priority = Some 50, hstate = PNone\<rparr>], iter := 7, epoch := 1\<rparr>)
   \<and> snd (state_dict demo_env (demo_runner\<lparr>hooks :=
         [\<lparr>kind = ''A'', priority = Some 10, hstate = PInt 4\<rparr>,
          \<lparr>kind = ''B'', priority = Some 50, hstate = PNone\<rparr>], iter := 7, epoch := 1\<rparr>))
     = demo_runner\<lparr>hooks :=
         [\<lparr>kind = ''A'', priority = Some 10, hstate = PInt 4\<rparr>,
          \<lparr>kind = ''B'', priority = Some 50, hstate = PNone\<rparr>], iter := 7, epoch := 1\<rparr>
   \<and> fst (state_dict demo_env (demo_runner\<lparr>hooks :=
         [\<lparr>kind = ''A'', priority = Some 10, hstate = PInt 4\<rparr>,
          \<lparr>kind = ''B'', priority = Some 50, hstate = PNone\<rparr>], iter := 7, epoch := 1\<rparr>))
     = Inr \<lparr>s_iter = Some 7, s_epoch = Some 1, s_optimizer = Some PNone,
            s_hooks = Some [(''A'', PInt 4)]\<rparr>"
proof -
  let ?r = "demo_runner\<lparr>hooks :=
         [\<lparr>kind = ''A'', priority = Some 10, hstate = PInt 4\<rparr>,
          \<lparr>kind = ''B'', priority = Some 50, hstate = PNone\<rparr>], iter := 7, epoch := 1\<rparr>"
  have a: "snd (opt_state_dict demo_env (optimizer ?r)) = optimizer ?r"
    by (simp add: demo_env_def)
  have b: "\<forall>h \<in> set (hooks ?r). snd (hook_state_dict demo_env h) = hstate h"
    by (simp add: demo_env_def)
  have c: "fst (state_dict demo_env ?r)
     = Inr \<lparr>s_iter = Some 7, s_epoch = Some 1, s_optimizer = Some PNone,
            s_hooks = Some [(''A'', PInt 4)]\<rparr>"
    by (simp add: state_dict_def demo_env_def demo_runner_def Let_def)
  show ?thesis
    using a c state_dict_no_side_effect[OF a b] by simp
qed

lemma hook_export_Inr: "fst (hook_state_dict env h) = Inr sd \<Longrightarrow> hook_export env h = Some sd"
  by (simp add: hook_export_def)

lemma filter_filter_absorb:
  "(\<And>x. x \<in> set xs \<Longrightarrow> P x \<Longrightarrow> Q x) \<Longrightarrow> filter P (filter Q xs) = filter P xs"
  by (induction xs) auto

lemma collect_hooks_state_spec:
  assumes "\<forall>h \<in> set hs. hook_export env h \<noteq> None"
  shows "fst (collect_hooks_state env hs acc)
       = Inr (acc @ filter (\<lambda>e. fst e \<notin> set (map fst acc)) (spec_hooks_state env hs))"
  using assms
proof (induction hs arbitrary: acc)
  case Nil
  show ?case by simp
next
  case (Cons h hs)
  obtain res s' where c: "hook_state_dict env h = (res, s')"
    by (cases "hook_state_dict env h")
  from Cons.prems obtain sd where sd: "res = Inr sd" "hook_export env h = Some sd"
    using c by (cases res) (auto simp: hook_export_def)
  have rest: "\<And>acc'. fst (collect_hooks_state env hs acc')
       = Inr (acc' @ filter (\<lambda>e. fst e \<notin> set (map fst acc')) (spec_hooks_state env hs))"
    using Cons by simp
  show ?case
  proof (cases "truthy sd")
    case False
    then have "\<not> stateful env h" using sd by (simp add: stateful_def)
    then show ?thesis using c sd False rest by (simp add: Let_def)
  next
    case True
    then have st: "stateful env h" using sd by (simp add: stateful_def)
    show ?thesis
    proof (cases "kind h \<in> set (map fst acc)")
      case True
      have "filter (\<lambda>e. fst e \<notin> set (map fst acc))
              (filter (\<lambda>e. fst e \<noteq> kind h) (spec_hooks_state env hs))
          = filter (\<lambda>e. fst e \<notin> set (map fst acc)) (spec_hooks_state env hs)"
        using True by (intro filter_filter_absorb) force
      then show ?thesis
        using c sd \<open>truthy sd\<close> st True rest[of acc] by (simp add: Let_def)
    next
      case False
      have "filter (\<lambda>e. fst e \<notin> set (map fst (acc @ [(kind h, sd)]))) (spec_hooks_state env hs)
          = filter (\<lambda>e. fst e \<notin> set (map fst acc))
              (filter (\<lambda>e. fst e \<noteq> kind h) (spec_hooks_state env hs))"
        by (auto intro: filter_cong)
      then show ?thesis
        using c sd \<open>truthy sd\<close> st False rest[of "acc @ [(kind h, sd)]"] by (simp add: Let_def)
    qed
  qed
qed

lemma map_of_filter_other:
  "k \<noteq> k' \<Longrightarrow> map_of (filter (\<lambda>e. fst e \<noteq> k') es) k = map_of es k"
  by (induction es) auto

lemma spec_hooks_state_lookup:
  "map_of (spec_hooks_state env hs) k
     = (case find (\<lambda>h. kind h = k \<and> stateful env h) hs of
          None \<Rightarrow> None
        | Some h \<Rightarrow> hook_export env h)"
proof (induction hs)
  case Nil
  show ?case by simp
next
  case (Cons h hs)
  show ?case
  proof (cases "stateful env h")
    case False
    then show ?thesis using Cons by simp
  next
    case True
    then obtain sd where "hook_export env h = Some sd"
      by (auto simp: stateful_def split: option.splits)
    then show ?thesis
      using True Cons by (cases "kind h = k") (auto simp: map_of_filter_other)
  qed
qed

lemma spec_hooks_state_key_iff:
  "k \<in> fst ` set (spec_hooks_state env hs) \<longleftrightarrow> (\<exists>h \<in> set hs. stateful env h \<and> kind h = k)"
proof (induction hs)
  case Nil
  show ?case by simp
next
  case (Cons h hs)
  show ?case
  proof (cases "stateful env h")
    case False
    then show ?thesis using Cons by auto
  next
    case True
    have "k \<in> fst ` set (filter (\<lambda>e. fst e \<noteq> kind h) (spec_hooks_state env hs))
        \<longleftrightarrow> k \<noteq> kind h \<and> k \<in> fst ` set (spec_hooks_state env hs)"
      by auto
    then show ?thesis using True Cons by auto
  qed
qed

lemma spec_hooks_state_keys:
  "set (map fst (spec_hooks_state env hs)) = kind ` {h \<in> set hs. stateful env h}"
proof (rule set_eqI)
  fix k
  show "k \<in> set (map fst (spec_hooks_state env hs)) \<longleftrightarrow> k \<in> kind ` {h \<in> set hs. stateful env h}"
    using spec_hooks_state_key_iff[of k env hs] by auto
qed

lemma spec_hooks_state_distinct: "distinct (map fst (spec_hooks_state env hs))"
  by (induction hs) (auto simp: distinct_map_filter)

lemma state_dict_entries:
  assumes "fst (opt_state_dict env (optimizer r)) = Inr ov"
    and "\<forall>h \<in> set (hooks r). hook_export env h \<noteq> None"
  shows "\<exists>sd. fst (state_dict env r) = Inr sd \<and> s_iter sd = Some (iter r)
           \<and> s_epoch sd = Some (epoch r) \<and> s_optimizer sd = Some ov
           \<and> hook_entries sd = spec_hooks_state env (hooks r)"
proof -
  obtain ost where o: "opt_state_dict env (optimizer r) = (Inr ov, ost)"
    using assms(1) by (cases "opt_state_dict env (optimizer r)") auto
  obtain hs where c: "collect_hooks_state env (hooks r) []
      = (Inr (spec_hooks_state env (hooks r)), hs)"
    using collect_hooks_state_spec[OF assms(2), of "[]"]
    by (cases "collect_hooks_state env (hooks r) []") auto
  show ?thesis
    using o c by (simp add: state_dict_def hook_entries_def)
qed

text \<open>
  C4. When the \<^verbatim>\<open>state_dict()\<close> calls on the optimizer and the hooks return, so does
  \<^verbatim>\<open>state_dict\<close>, whatever kinds the hooks share. Its hooks mapping is built in registry
  order from the stateful hooks alone, has one entry per kind, and holds under each kind
  the state of the first stateful hook of that kind in the registry.
\<close>

theorem state_dict_first_per_kind:
  assumes "fst (opt_state_dict env (optimizer r)) = Inr ov"
    and "\<forall>h \<in> set (hooks r). hook_export env h \<noteq> None"
  shows "\<exists>sd. fst (state_dict env r) = Inr sd
           \<and> hook_entries sd = spec_hooks_state env (hooks r)
           \<and> distinct (map fst (hook_entries sd))
           \<and> set (map fst (hook_entries sd)) = kind ` {h \<in> set (hooks r). stateful env h}
           \<and> (\<forall>k. map_of (hook_entries sd) k
                  = (case find (\<lambda>h. kind h = k \<and> stateful env h) (hooks r) of
                       None \<Rightarrow> None
                     | Some h \<Rightarrow> hook_export env h))"
proof -
  obtain sd where "fst (state_dict env r) = Inr sd"
    "hook_entries sd = spec_hooks_state env (hooks r)"
    using state_dict_entries[OF assms] by blast
  then show ?thesis
    using spec_hooks_state_distinct[of env "hooks r"] spec_hooks_state_keys[of env "hooks r"]
      spec_hooks_state_lookup[of env "hooks r"]
    by (intro exI[of _ sd]) simp
qed

text \<open>
  Two stateful hooks of kind H around an empty one of kind E and a stateful one of kind
  G: the snapshot keeps the first H and G.
\<close>

theorem state_dict_first_per_kind_witness:
  "fst (opt_state_dict demo_env (optimizer (demo_runner\<lparr>hooks :=
         [\<lparr>kind = ''H'', priority = Some 10, hstate = PInt 1\<rparr>,
          \<lparr>kind = ''E'', priority = Some 20, hstate = PDict []\<rparr>,
          \<lparr>kind = ''H'', priority = Some 30, hstate = PInt 2\<rparr>,
          \<lparr>kind = ''G'', priority = Some 40, hstate = PStr ''g''\<rparr>]\<rparr>))) = Inr PNone
   \<and> (\<exists>sd. fst (state_dict demo_env (demo_runner\<lparr>hooks :=
         [\<lparr>kind = ''H'', priority = Some 10, hstate = PInt 1\<rparr>,
          \<lparr>kind = ''E'', priority = Some 20, hstate = PDict []\<rparr>,
          \<lparr>kind = ''H'', priority = Some 30, hstate = PInt 2\<rparr>,
          \<lparr>kind = ''G'', priority = Some 40, hstate = PStr ''g''\<rparr>]\<rparr>)) = Inr sd
        \<and> hook_entries sd = [(''H'', PInt 1), (''G'', PStr ''g'')])"
proof -
  let ?r = "demo_runner\<lparr>hooks :=
         [\<lparr>kind = ''H'', priority = Some 10, hstate = PInt 1\<rparr>,
          \<lparr>kind = ''E'', priority = Some 20, hstate = PDict []\<rparr>,
          \<lparr>kind = ''H'', priority = Some 30, hstate = PInt 2\<rparr>,
          \<lparr>kind = ''G'', priority = Some 40, hstate = PStr ''g''\<rparr>]\<rparr>"
  have a: "fst (opt_state_dict demo_env (optimizer ?r)) = Inr PNone"
    by (simp add: demo_env_def demo_runner_def)
  have b: "\<forall>h \<in> set (hooks ?r). hook_export demo_env h \<noteq> None"
    by (simp add: hook_export_def demo_env_def)
  have c: "spec_hooks_state demo_env (hooks ?r) = [(''H'', PInt 1), (''G'', PStr ''g'')]"
    by (simp add: stateful_def hook_export_def demo_env_def)
  show ?thesis
    using a c state_dict_first_per_kind[OF a b] by auto
qed

lemma load_hook_entry_no_match:
  "\<forall>x \<in> set hs. kind x \<noteq> key \<Longrightarrow> load_hook_entry env key val hs = (NotFound, hs)"
  by (induction hs) simp_all

lemma load_hook_entry_first_match:
  assumes "\<forall>x \<in> set pre. kind x \<noteq> key" and "kind h = key"
  shows "load_hook_entry env key val (pre @ h # post)
       = ((case fst (hook_load_state_dict env val h) of None \<Rightarrow> Loaded | Some m \<Rightarrow> Failed m),
          pre @ h\<lparr>hstate := snd (hook_load_state_dict env val h)\<rparr> # post)"
  using assms
proof (induction pre)
  case Nil
  then show ?case
    by (cases "hook_load_state_dict env val h") (auto split: option.splits)
next
  case (Cons x pre)
  then show ?case by simp
qed

lemma first_match_split:
  assumes "\<exists>x \<in> set hs. kind x = key"
  shows "\<exists>pre h post. hs = pre @ h # post \<and> (\<forall>x \<in> set pre. kind x \<noteq> key) \<and> kind h = key"
proof -
  from assms obtain pre h post where "hs = pre @ h # post" "kind h = key"
    "\<forall>x \<in> set pre. \<not> kind x = key"
    using split_list_first_prop[of hs "\<lambda>x. kind x = key"] by blast
  then show ?thesis by blast
qed

text \<open>
  C10. In \<^verbatim>\<open>load_state_dict\<close>, one entry of the hooks mapping reaches at most one hook. If
  no registered hook has the entry's kind, no hook is touched. Otherwise the first hook of
  that kind in the registry receives the state, and every other hook, those of the same
  kind behind it included, is left as it was, whatever \<^verbatim>\<open>load_state_dict\<close> of a hook
  does.
\<close>

theorem load_hook_entry_first_only:
  "((\<forall>x \<in> set hs. kind x \<noteq> key) \<longrightarrow> load_hook_entry env key val hs = (NotFound, hs))
   \<and> (hs = pre @ h # post \<and> (\<forall>x \<in> set pre. kind x \<noteq> key) \<and> kind h = key
      \<longrightarrow> fst (load_hook_entry env key val hs) \<noteq> NotFound
        \<and> snd (load_hook_entry env key val hs)
            = pre @ h\<lparr>hstate := snd (hook_load_state_dict env val h)\<rparr> # post)"
proof (intro conjI impI)
  assume "\<forall>x \<in> set hs. kind x \<noteq> key"
  then show "load_hook_entry env key val hs = (NotFound, hs)"
    by (rule load_hook_entry_no_match)
next
  assume a: "hs = pre @ h # post \<and> (\<forall>x \<in> set pre. kind x \<noteq> key) \<and> kind h = key"
  then have l: "load_hook_entry env key val hs
       = ((case fst (hook_load_state_dict env val h) of None \<Rightarrow> Loaded | Some m \<Rightarrow> Failed m),
          pre @ h\<lparr>hstate := snd (hook_load_state_dict env val h)\<rparr> # post)"
    using load_hook_entry_first_match[of pre key h env val post] by simp
  show "fst (load_hook_entry env key val hs) \<noteq> NotFound"
    using l by (simp split: option.splits)
  show "snd (load_hook_entry env key val hs)
            = pre @ h\<lparr>hstate := snd (hook_load_state_dict env val h)\<rparr> # post"
    using l by simp
qed

text \<open>Of two hooks of kind H, the first takes the state and the second keeps its own.\<close>

theorem load_hook_entry_first_only_witness:
  "load_hook_entry demo_env ''H'' (PInt 7)
     [\<lparr>kind = ''G'', priority = Some 10, hstate = PInt 0\<rparr>,
      \<lparr>kind = ''H'', priority = Some 20, hstate = PInt 1\<rparr>,
      \<lparr>kind = ''H'', priority = Some 30, hstate = PInt 2\<rparr>]
   = (Loaded,
      [\<lparr>kind = ''G'', priority = Some 10, hstate = PInt 0\<rparr>,
       \<lparr>kind = ''H'', priority = Some 20, hstate = PInt 7\<rparr>,
       \<lparr>kind = ''H'', priority = Some 30, hstate = PInt 2\<rparr>])
   \<and> load_hook_entry demo_env ''K'' (PInt 7)
       [\<lparr>kind = ''G'', priority = Some 10, hstate = PInt 0\<rparr>]
     = (NotFound, [\<lparr>kind = ''G'', priority = Some 10, hstate = PInt 0\<rparr>])"
proof -
  have l: "fst (load_hook_entry demo_env ''H'' (PInt 7)
     [\<lparr>kind = ''G'', priority = Some 10, hstate = PInt 0\<rparr>,
      \<lparr>kind = ''H'', priority = Some 20, hstate = PInt 1\<rparr>,
      \<lparr>kind = ''H'', priority = Some 30, hstate = PInt 2\<rparr>]) = Loaded"
    by (simp add: demo_env_def)
  have i: "snd (hook_load_state_dict demo_env (PInt 7)
      \<lparr>kind = ''H'', priority = Some 20, hstate = PInt 1\<rparr>) = PInt 7"
    by (simp add: demo_env_def)
  show ?thesis
    using l i
      load_hook_entry_first_only[of
        "[\<lparr>kind = ''G'', priority = Some 10, hstate = PInt 0\<rparr>,
          \<lparr>kind = ''H'', priority = Some 20, hstate = PInt 1\<rparr>,
          \<lparr>kind = ''H'', priority = Some 30, hstate = PInt 2\<rparr>]" "''H''" demo_env "PInt 7"
        "[\<lparr>kind = ''G'', priority = Some 10, hstate = PInt 0\<rparr>]"
        "\<lparr>kind = ''H'', priority = Some 20, hstate = PInt 1\<rparr>"
        "[\<lparr>kind = ''H'', priority = Some 30, hstate = PInt 2\<rparr>]"]
      load_hook_entry_first_only[of
        "[\<lparr>kind = ''G'', priority = Some 10, hstate = PInt 0\<rparr>]" "''K''" demo_env "PInt 7"
        "[]" "\<lparr>kind = ''G'', priority = Some 10, hstate = PInt 0\<rparr>" "[]"]
    by (simp add: prod_eq_iff)
qed

lemma first_of_kind_unique:
  assumes "first_of_kind hs i" "first_of_kind hs j" "i < length hs" "j < length hs"
    and "kind (hs ! i) = kind (hs ! j)"
  shows "i = j"
proof (rule ccontr)
  assume "i \<noteq> j"
  then consider "i < j" | "j < i" by linarith
  then show False
  proof cases
    case 1
    then have "hs ! i \<in> set (take j hs)"
      using assms(4) by (auto simp: in_set_conv_nth intro!: exI[of _ i])
    then have "kind (hs ! i) \<in> set (map kind (take j hs))" by simp
    then show False using assms(2,5) by (simp add: first_of_kind_def)
  next
    case 2
    then have "hs ! j \<in> set (take i hs)"
      using assms(3) by (auto simp: in_set_conv_nth intro!: exI[of _ j])
    then have "kind (hs ! j) \<in> set (map kind (take i hs))" by simp
    then show False using assms(1,5) by (simp add: first_of_kind_def)
  qed
qed

lemma first_of_kind_cong:
  assumes "map kind hs' = map kind hs" and "i < length hs"
  shows "first_of_kind hs' i = first_of_kind hs i"
proof -
  have l: "length hs' = length hs" using assms(1) by (metis length_map)
  have "kind (hs' ! i) = map kind hs' ! i" using assms(2) l by simp
  then have k: "kind (hs' ! i) = kind (hs ! i)" using assms by simp
  have "map kind (take i hs') = map kind (take i hs)"
    using assms(1) by (simp add: take_map[symmetric])
  then show ?thesis using k by (simp add: first_of_kind_def)
qed

lemma load_hook_entry_update_first:
  assumes "\<exists>x \<in> set hs. kind x = key"
  shows "\<exists>i < length hs. kind (hs ! i) = key \<and> first_of_kind hs i
           \<and> load_hook_entry env key val hs
             = ((case fst (hook_load_state_dict env val (hs ! i)) of
                   None \<Rightarrow> Loaded | Some m \<Rightarrow> Failed m),
                hs[i := loaded_with env val (hs ! i)])"
proof -
  obtain pre h post where s: "hs = pre @ h # post" "\<forall>x \<in> set pre. kind x \<noteq> key" "kind h = key"
    using first_match_split[OF assms] by blast
  have "load_hook_entry env key val hs
       = ((case fst (hook_load_state_dict env val h) of None \<Rightarrow> Loaded | Some m \<Rightarrow> Failed m),
          pre @ h\<lparr>hstate := snd (hook_load_state_dict env val h)\<rparr> # post)"
    unfolding s(1) using s(2,3) by (rule load_hook_entry_first_match)
  moreover have "first_of_kind hs (length pre)"
    using s by (auto simp: first_of_kind_def)
  ultimately show ?thesis
    using s by (intro exI[of _ "length pre"]) (simp add: loaded_with_def)
qed

lemma load_hooks_state_delivery:
  assumes "distinct (map fst es)"
  shows "(fst (load_hooks_state env es r) = None
          \<longleftrightarrow> (\<forall>i < length (hooks r). \<forall>v.
                 first_of_kind (hooks r) i \<and> (kind (hooks r ! i), v) \<in> set es
                 \<longrightarrow> fst (hook_load_state_dict env v (hooks r ! i)) = None))
       \<and> (fst (load_hooks_state env es r) = None
          \<longrightarrow> (\<forall>i < length (hooks r).
                 (\<forall>v. first_of_kind (hooks r) i \<and> (kind (hooks r ! i), v) \<in> set es
                    \<longrightarrow> hooks (snd (load_hooks_state env es r)) ! i
                        = loaded_with env v (hooks r ! i))
               \<and> (\<not> (first_of_kind (hooks r) i \<and> kind (hooks r ! i) \<in> fst ` set es)
                    \<longrightarrow> hooks (snd (load_hooks_state env es r)) ! i = hooks r ! i)))"
  using assms
proof (induction es arbitrary: r)
  case Nil
  show ?case by simp
next
  case (Cons e es)
  obtain key val where e: "e = (key, val)" by (cases e)
  have dk: "key \<notin> fst ` set es" and des: "distinct (map fst es)"
    using Cons.prems e by auto
  let ?hs = "hooks r"
  show ?case
  proof (cases "\<exists>x \<in> set ?hs. kind x = key")
    case False
    let ?r = "r\<lparr>hooks := ?hs, logged := logged r @ [missing_hook_warning key]\<rparr>"
    have l: "load_hooks_state env (e # es) r = load_hooks_state env es ?r"
      unfolding e using load_hook_entry_no_match[of ?hs key env val] False by simp
    have nk: "\<And>i. i < length ?hs \<Longrightarrow> kind (?hs ! i) \<noteq> key"
      using False by auto
    have m1: "\<And>i v. i < length ?hs
        \<Longrightarrow> ((kind (?hs ! i), v) \<in> set (e # es)) = ((kind (?hs ! i), v) \<in> set es)"
      using nk e by auto
    have m2: "\<And>i. i < length ?hs
        \<Longrightarrow> (kind (?hs ! i) \<in> fst ` set (e # es)) = (kind (?hs ! i) \<in> fst ` set es)"
      using nk e by auto
    have h: "hooks ?r = ?hs" by simp
    have ih1: "fst (load_hooks_state env es ?r) = None
          \<longleftrightarrow> (\<forall>i < length ?hs. \<forall>v.
                 first_of_kind ?hs i \<and> (kind (?hs ! i), v) \<in> set es
                 \<longrightarrow> fst (hook_load_state_dict env v (?hs ! i)) = None)"
      using Cons.IH[OF des, of ?r] unfolding h by blast
    have ih2: "fst (load_hooks_state env es ?r) = None
          \<Longrightarrow> i < length ?hs
          \<Longrightarrow> first_of_kind ?hs i \<and> (kind (?hs ! i), v) \<in> set es
          \<Longrightarrow> hooks (snd (load_hooks_state env es ?r)) ! i = loaded_with env v (?hs ! i)"
      for i v
      using Cons.IH[OF des, of ?r] unfolding h by blast
    have ih3: "fst (load_hooks_state env es ?r) = None
          \<Longrightarrow> i < length ?hs
          \<Longrightarrow> \<not> (first_of_kind ?hs i \<and> kind (?hs ! i) \<in> fst ` set es)
          \<Longrightarrow> hooks (snd (load_hooks_state env es ?r)) ! i = ?hs ! i"
      for i
      using Cons.IH[OF des, of ?r] unfolding h by blast
    have iff: "fst (load_hooks_state env es ?r) = None
          \<longleftrightarrow> (\<forall>i < length ?hs. \<forall>v.
                 first_of_kind ?hs i \<and> (kind (?hs ! i), v) \<in> set (e # es)
                 \<longrightarrow> fst (hook_load_state_dict env v (?hs ! i)) = None)"
      unfolding ih1 using m1 by blast
    have deliv: "\<forall>i < length ?hs.
                 (\<forall>v. first_of_kind ?hs i \<and> (kind (?hs ! i), v) \<in> set (e # es)
                    \<longrightarrow> hooks (snd (load_hooks_state env es ?r)) ! i
                        = loaded_with env v (?hs ! i))
               \<and> (\<not> (first_of_kind ?hs i \<and> kind (?hs ! i) \<in> fst ` set (e # es))
                    \<longrightarrow> hooks (snd (load_hooks_state env es ?r)) ! i = ?hs ! i)"
      if ok: "fst (load_hooks_state env es ?r) = None"
    proof (intro allI impI conjI)
      fix i v
      assume i: "i < length ?hs"
        and a: "first_of_kind ?hs i \<and> (kind (?hs ! i), v) \<in> set (e # es)"
      then have "first_of_kind ?hs i \<and> (kind (?hs ! i), v) \<in> set es"
        using m1[OF i] by blast
      then show "hooks (snd (load_hooks_state env es ?r)) ! i = loaded_with env v (?hs ! i)"
        using ih2[OF ok i] by blast
    next
      fix i
      assume i: "i < length ?hs"
        and a: "\<not> (first_of_kind ?hs i \<and> kind (?hs ! i) \<in> fst ` set (e # es))"
      then have "\<not> (first_of_kind ?hs i \<and> kind (?hs ! i) \<in> fst ` set es)"
        using m2[OF i] by blast
      then show "hooks (snd (load_hooks_state env es ?r)) ! i = ?hs ! i"
        using ih3[OF ok i] by blast
    qed
    show ?thesis
      unfolding l using iff deliv by blast
  next
    case True
    obtain i0 where i0: "i0 < length ?hs" "kind (?hs ! i0) = key" "first_of_kind ?hs i0"
      and le: "load_hook_entry env key val ?hs
             = ((case fst (hook_load_state_dict env val (?hs ! i0)) of
                   None \<Rightarrow> Loaded | Some m \<Rightarrow> Failed m),
                ?hs[i0 := loaded_with env val (?hs ! i0)])"
      using load_hook_entry_update_first[OF True, of env val] by blast
    let ?hs' = "?hs[i0 := loaded_with env val (?hs ! i0)]"
    let ?r = "r\<lparr>hooks := ?hs'\<rparr>"
    have in_e: "(key, val) \<in> set (e # es)" using e by simp
    show ?thesis
    proof (cases "fst (hook_load_state_dict env val (?hs ! i0))")
      case (Some m)
      have "fst (load_hooks_state env (e # es) r) \<noteq> None"
        unfolding e using le Some by simp
      moreover have "\<not> (\<forall>i < length ?hs. \<forall>v.
                 first_of_kind ?hs i \<and> (kind (?hs ! i), v) \<in> set (e # es)
                 \<longrightarrow> fst (hook_load_state_dict env v (?hs ! i)) = None)"
        using i0 in_e Some by (metis option.distinct(1))
      ultimately show ?thesis by blast
    next
      case None
      have l: "load_hooks_state env (e # es) r = load_hooks_state env es ?r"
        unfolding e using le None by simp
      have kinds: "map kind ?hs' = map kind ?hs"
        using i0 by (simp add: map_update list_update_same_conv loaded_with_def)
      have len: "length ?hs' = length ?hs" by simp
      have fk: "\<And>i. i < length ?hs \<Longrightarrow> first_of_kind ?hs' i = first_of_kind ?hs i"
        using first_of_kind_cong[OF kinds] by simp
      have kn: "\<And>i. i < length ?hs \<Longrightarrow> kind (?hs' ! i) = kind (?hs ! i)"
      proof -
        fix i assume i: "i < length ?hs"
        then have "map kind ?hs' ! i = map kind ?hs ! i" using kinds by simp
        then show "kind (?hs' ! i) = kind (?hs ! i)" using i by simp
      qed
      have other: "\<And>i. i \<noteq> i0 \<Longrightarrow> ?hs' ! i = ?hs ! i" by simp
      have at0: "?hs' ! i0 = loaded_with env val (?hs ! i0)" using i0(1) by simp
      have only0: "\<And>i. i < length ?hs \<Longrightarrow> first_of_kind ?hs i \<Longrightarrow> kind (?hs ! i) = key
          \<Longrightarrow> i = i0"
        using first_of_kind_unique[of ?hs _ i0] i0 by simp
      have ih1: "fst (load_hooks_state env es ?r) = None
          \<longleftrightarrow> (\<forall>i < length ?hs. \<forall>v.
                 first_of_kind ?hs i \<and> (kind (?hs ! i), v) \<in> set es
                 \<longrightarrow> fst (hook_load_state_dict env v (?hs' ! i)) = None)"
        using Cons.IH[OF des, of ?r] fk kn by simp
      have ih2: "fst (load_hooks_state env es ?r) = None
          \<Longrightarrow> i < length ?hs
          \<Longrightarrow> first_of_kind ?hs i \<and> (kind (?hs ! i), v) \<in> set es
          \<Longrightarrow> hooks (snd (load_hooks_state env es ?r)) ! i = loaded_with env v (?hs' ! i)"
        for i v
        using Cons.IH[OF des, of ?r] fk kn by simp
      have ih3: "fst (load_hooks_state env es ?r) = None
          \<Longrightarrow> i < length ?hs
          \<Longrightarrow> \<not> (first_of_kind ?hs i \<and> kind (?hs ! i) \<in> fst ` set es)
          \<Longrightarrow> hooks (snd (load_hooks_state env es ?r)) ! i = ?hs' ! i"
        for i
        using Cons.IH[OF des, of ?r] fk kn by simp
      have in_es: "\<And>i v. (kind (?hs ! i), v) \<in> set es \<Longrightarrow> i \<noteq> i0"
        using dk i0(2) by force
      have split_e: "\<And>i v. i < length ?hs \<Longrightarrow> first_of_kind ?hs i
          \<Longrightarrow> (kind (?hs ! i), v) \<in> set (e # es)
          \<Longrightarrow> (i = i0 \<and> v = val) \<or> (i \<noteq> i0 \<and> (kind (?hs ! i), v) \<in> set es)"
      proof -
        fix i v
        assume a: "i < length ?hs" "first_of_kind ?hs i" "(kind (?hs ! i), v) \<in> set (e # es)"
        show "(i = i0 \<and> v = val) \<or> (i \<noteq> i0 \<and> (kind (?hs ! i), v) \<in> set es)"
        proof (cases "(kind (?hs ! i), v) = e")
          case True
          then show ?thesis using only0[OF a(1,2)] e by simp
        next
          case False
          then have "(kind (?hs ! i), v) \<in> set es" using a(3) by simp
          then show ?thesis using in_es by blast
        qed
      qed
      have iff: "fst (load_hooks_state env es ?r) = None
          \<longleftrightarrow> (\<forall>i < length ?hs. \<forall>v.
                 first_of_kind ?hs i \<and> (kind (?hs ! i), v) \<in> set (e # es)
                 \<longrightarrow> fst (hook_load_state_dict env v (?hs ! i)) = None)"
      proof
        assume ok: "fst (load_hooks_state env es ?r) = None"
        show "\<forall>i < length ?hs. \<forall>v.
                 first_of_kind ?hs i \<and> (kind (?hs ! i), v) \<in> set (e # es)
                 \<longrightarrow> fst (hook_load_state_dict env v (?hs ! i)) = None"
        proof (intro allI impI)
          fix i v
          assume i: "i < length ?hs"
            and a: "first_of_kind ?hs i \<and> (kind (?hs ! i), v) \<in> set (e # es)"
          from split_e[OF i] a
          consider "i = i0 \<and> v = val" | "i \<noteq> i0 \<and> (kind (?hs ! i), v) \<in> set es" by blast
          then show "fst (hook_load_state_dict env v (?hs ! i)) = None"
          proof cases
            case 1
            then show ?thesis using None by simp
          next
            case 2
            then have "fst (hook_load_state_dict env v (?hs' ! i)) = None"
              using ih1 ok i a by blast
            then show ?thesis using 2 other by simp
          qed
        qed
      next
        assume rhs: "\<forall>i < length ?hs. \<forall>v.
                 first_of_kind ?hs i \<and> (kind (?hs ! i), v) \<in> set (e # es)
                 \<longrightarrow> fst (hook_load_state_dict env v (?hs ! i)) = None"
        have "\<forall>i < length ?hs. \<forall>v.
                 first_of_kind ?hs i \<and> (kind (?hs ! i), v) \<in> set es
                 \<longrightarrow> fst (hook_load_state_dict env v (?hs' ! i)) = None"
        proof (intro allI impI)
          fix i v
          assume i: "i < length ?hs"
            and a: "first_of_kind ?hs i \<and> (kind (?hs ! i), v) \<in> set es"
          then have "i \<noteq> i0" using in_es by blast
          moreover have "fst (hook_load_state_dict env v (?hs ! i)) = None"
            using rhs i a by simp
          ultimately show "fst (hook_load_state_dict env v (?hs' ! i)) = None"
            using other by simp
        qed
        then show "fst (load_hooks_state env es ?r) = None" using ih1 by blast
      qed
      have deliv: "\<forall>i < length ?hs.
                 (\<forall>v. first_of_kind ?hs i \<and> (kind (?hs ! i), v) \<in> set (e # es)
                    \<longrightarrow> hooks (snd (load_hooks_state env es ?r)) ! i
                        = loaded_with env v (?hs ! i))
               \<and> (\<not> (first_of_kind ?hs i \<and> kind (?hs ! i) \<in> fst ` set (e # es))
                    \<longrightarrow> hooks (snd (load_hooks_state env es ?r)) ! i = ?hs ! i)"
        if ok: "fst (load_hooks_state env es ?r) = None"
      proof (intro allI impI conjI)
        fix i v
        assume i: "i < length ?hs"
          and a: "first_of_kind ?hs i \<and> (kind (?hs ! i), v) \<in> set (e # es)"
        from split_e[OF i] a
        consider "i = i0 \<and> v = val" | "i \<noteq> i0 \<and> (kind (?hs ! i), v) \<in> set es" by blast
        then show "hooks (snd (load_hooks_state env es ?r)) ! i = loaded_with env v (?hs ! i)"
        proof cases
          case 1
          have "\<not> (first_of_kind ?hs i0 \<and> kind (?hs ! i0) \<in> fst ` set es)"
            using dk i0(2) by simp
          then have "hooks (snd (load_hooks_state env es ?r)) ! i0 = ?hs' ! i0"
            using ih3[OF ok i0(1)] by simp
          then show ?thesis using 1 at0 by simp
        next
          case 2
          then have "hooks (snd (load_hooks_state env es ?r)) ! i = loaded_with env v (?hs' ! i)"
            using ih2[OF ok i] a by simp
          then show ?thesis using 2 other by simp
        qed
      next
        fix i
        assume i: "i < length ?hs"
          and a: "\<not> (first_of_kind ?hs i \<and> kind (?hs ! i) \<in> fst ` set (e # es))"
        have "i \<noteq> i0" using a i0 e by auto
        moreover have "\<not> (first_of_kind ?hs i \<and> kind (?hs ! i) \<in> fst ` set es)"
          using a by auto
        ultimately show "hooks (snd (load_hooks_state env es ?r)) ! i = ?hs ! i"
          using ih3[OF ok i] other by simp
      qed
      show ?thesis
        unfolding l using iff deliv by blast
    qed
  qed
qed

lemma load_state_dict_returns:
  assumes "fst (load_state_dict env sd r) = None"
  shows "\<exists>r'. hooks r' = hooks r
           \<and> load_state_dict env sd r = load_hooks_state env (hook_entries sd) r'"
proof -
  from assms obtain i e ov where sd: "s_iter sd = Some i" "s_epoch sd = Some e"
    "s_optimizer sd = Some ov"
    by (auto simp: load_state_dict_def split: option.splits)
  obtain x ost where o: "opt_load_state_dict env ov (optimizer r) = (x, ost)"
    by (cases "opt_load_state_dict env ov (optimizer r)")
  with assms sd have "x = None"
    by (cases x) (simp_all add: load_state_dict_def)
  then have "load_state_dict env sd r
      = load_hooks_state env (hook_entries sd) (r\<lparr>iter := i, epoch := e, optimizer := ost\<rparr>)"
    using sd o by (simp add: load_state_dict_def hook_entries_def)
  then show ?thesis
    by (intro exI[of _ "r\<lparr>iter := i, epoch := e, optimizer := ost\<rparr>"]) simp
qed

lemma first_of_kind_earlier:
  assumes "first_of_kind hs i" "j < i" "i < length hs"
  shows "kind (hs ! j) \<noteq> kind (hs ! i)"
proof -
  have "hs ! j \<in> set (take i hs)"
    using assms(2,3) by (auto simp: in_set_conv_nth intro!: exI[of _ j])
  then have "kind (hs ! j) \<in> set (map kind (take i hs))" by simp
  then show ?thesis using assms(1) by (auto simp: first_of_kind_def)
qed

lemma load_hook_entry_kinds:
  "map kind (snd (load_hook_entry env key val hs)) = map kind hs"
proof (induction hs)
  case Nil
  show ?case by simp
next
  case (Cons h hs)
  then show ?case
    by (cases "hook_load_state_dict env val h") (auto simp: Let_def split: option.splits)
qed

lemma load_hooks_state_log_irrelevant:
  assumes "r1\<lparr>logged := []\<rparr> = r2\<lparr>logged := []\<rparr>"
  shows "fst (load_hooks_state env es r1) = fst (load_hooks_state env es r2)
       \<and> (snd (load_hooks_state env es r1))\<lparr>logged := []\<rparr>
         = (snd (load_hooks_state env es r2))\<lparr>logged := []\<rparr>"
  using assms
proof (induction es arbitrary: r1 r2)
  case Nil
  then show ?case by simp
next
  case (Cons e es)
  obtain key val where e: "e = (key, val)" by (cases e)
  have hk: "hooks r1 = hooks r2"
    using arg_cong[OF Cons.prems, of hooks] by simp
  obtain res hs where l: "load_hook_entry env key val (hooks r2) = (res, hs)"
    by (cases "load_hook_entry env key val (hooks r2)")
  have upd: "\<And>l1 l2. (r1\<lparr>hooks := hs, logged := l1\<rparr>)\<lparr>logged := []\<rparr>
                 = (r2\<lparr>hooks := hs, logged := l2\<rparr>)\<lparr>logged := []\<rparr>"
    using Cons.prems by (cases r1; cases r2) simp
  show ?case
  proof (cases res)
    case Loaded
    have "(r1\<lparr>hooks := hs\<rparr>)\<lparr>logged := []\<rparr> = (r2\<lparr>hooks := hs\<rparr>)\<lparr>logged := []\<rparr>"
      using Cons.prems by (cases r1; cases r2) simp
    from Cons.IH[OF this] show ?thesis
      unfolding e using l hk Loaded by simp
  next
    case NotFound
    from Cons.IH[OF upd] show ?thesis
      unfolding e using l hk NotFound by simp
  next
    case (Failed m)
    have "(r1\<lparr>hooks := hs\<rparr>)\<lparr>logged := []\<rparr> = (r2\<lparr>hooks := hs\<rparr>)\<lparr>logged := []\<rparr>"
      using Cons.prems by (cases r1; cases r2) simp
    then show ?thesis
      unfolding e using l hk Failed by simp
  qed
qed

lemma load_hooks_state_kinds:
  "map kind (hooks (snd (load_hooks_state env es r))) = map kind (hooks r)"
proof (induction es arbitrary: r)
  case Nil
  show ?case by simp
next
  case (Cons e es)
  obtain key val where e: "e = (key, val)" by (cases e)
  obtain res hs where l: "load_hook_entry env key val (hooks r) = (res, hs)"
    by (cases "load_hook_entry env key val (hooks r)")
  have k: "map kind hs = map kind (hooks r)"
    using load_hook_entry_kinds[of env key val "hooks r"] l by simp
  show ?case
    unfolding e using l k Cons.IH by (cases res) simp_all
qed

lemma load_hooks_state_log_grows:
  "set (logged r) \<subseteq> set (logged (snd (load_hooks_state env es r)))"
proof (induction es arbitrary: r)
  case Nil
  show ?case by simp
next
  case (Cons e es)
  obtain key val where e: "e = (key, val)" by (cases e)
  obtain res hs where l: "load_hook_entry env key val (hooks r) = (res, hs)"
    by (cases "load_hook_entry env key val (hooks r)")
  show ?case
  proof (cases res)
    case Loaded
    then show ?thesis unfolding e using l Cons.IH[of "r\<lparr>hooks := hs\<rparr>"] by simp
  next
    case NotFound
    then show ?thesis
      unfolding e
      using l Cons.IH[of "r\<lparr>hooks := hs, logged := logged r @ [missing_hook_warning key]\<rparr>"]
      by auto
  next
    case (Failed m)
    then show ?thesis unfolding e using l by simp
  qed
qed

lemma load_hooks_state_skip:
  assumes "\<forall>x \<in> set (hooks r). kind x \<noteq> key"
  shows "fst (load_hooks_state env (es1 @ (key, val) # es2) r)
         = fst (load_hooks_state env (es1 @ es2) r)
       \<and> (snd (load_hooks_state env (es1 @ (key, val) # es2) r))\<lparr>logged := []\<rparr>
         = (snd (load_hooks_state env (es1 @ es2) r))\<lparr>logged := []\<rparr>
       \<and> (fst (load_hooks_state env es1 r) = None
          \<longrightarrow> missing_hook_warning key
                \<in> set (logged (snd (load_hooks_state env (es1 @ (key, val) # es2) r))))"
  using assms
proof (induction es1 arbitrary: r)
  case Nil
  let ?r = "r\<lparr>hooks := hooks r, logged := logged r @ [missing_hook_warning key]\<rparr>"
  have l: "load_hooks_state env ((key, val) # es2) r = load_hooks_state env es2 ?r"
    using load_hook_entry_no_match[OF Nil.prems, of env val] by simp
  have "?r\<lparr>logged := []\<rparr> = r\<lparr>logged := []\<rparr>" by simp
  from load_hooks_state_log_irrelevant[OF this, of env es2]
  have "fst (load_hooks_state env es2 ?r) = fst (load_hooks_state env es2 r)"
    "(snd (load_hooks_state env es2 ?r))\<lparr>logged := []\<rparr>
       = (snd (load_hooks_state env es2 r))\<lparr>logged := []\<rparr>"
    by simp_all
  moreover have "missing_hook_warning key \<in> set (logged (snd (load_hooks_state env es2 ?r)))"
    using load_hooks_state_log_grows[of ?r env es2] by auto
  ultimately show ?case using l by simp
next
  case (Cons e es1)
  obtain k v where e: "e = (k, v)" by (cases e)
  obtain res hs where l: "load_hook_entry env k v (hooks r) = (res, hs)"
    by (cases "load_hook_entry env k v (hooks r)")
  have "map kind hs = map kind (hooks r)"
    using load_hook_entry_kinds[of env k v "hooks r"] l by simp
  then have "kind ` set hs = kind ` set (hooks r)"
    by (metis set_map)
  then have nk: "\<forall>x \<in> set hs. kind x \<noteq> key"
    using Cons.prems by (metis imageI image_iff)
  show ?case
  proof (cases res)
    case Loaded
    then show ?thesis
      unfolding e using l nk Cons.IH[of "r\<lparr>hooks := hs\<rparr>"] by simp
  next
    case NotFound
    then show ?thesis
      unfolding e
      using l nk Cons.IH[of "r\<lparr>hooks := hs, logged := logged r @ [missing_hook_warning k]\<rparr>"]
      by simp
  next
    case (Failed m)
    then show ?thesis unfolding e using l by simp
  qed
qed

text \<open>
  C5. Let no registered hook have the kind of one entry of the snapshot's hooks mapping.
  Then that entry does not make \<^verbatim>\<open>load_state_dict\<close> fail and changes nothing but the log:
  the call raises or returns as it does on the snapshot without the entry and leaves the
  same counters, optimizer and hooks. Whenever the entries before it are restored without
  an exception, the message "Cannot find the hook '...', its state_dict is ignored." with
  the missing kind between the quotes has been logged. And when the call returns (the
  keys of the mapping being distinct, as those of a dictionary are), every other entry
  has been delivered: the first hook of the entry's kind is as its \<^verbatim>\<open>load_state_dict\<close>
  left it, and a hook that is not the first of the kind of any entry is as it was.
\<close>

theorem load_state_dict_unmatched_entry:
  assumes "\<forall>x \<in> set (hooks r). kind x \<noteq> key"
    and "s_hooks sd = Some (es1 @ (key, val) # es2)"
  shows "fst (load_state_dict env sd r) = fst (load_state_dict env (sd\<lparr>s_hooks := Some (es1 @ es2)\<rparr>) r)
       \<and> (snd (load_state_dict env sd r))\<lparr>logged := []\<rparr>
         = (snd (load_state_dict env (sd\<lparr>s_hooks := Some (es1 @ es2)\<rparr>) r))\<lparr>logged := []\<rparr>
       \<and> (fst (load_state_dict env (sd\<lparr>s_hooks := Some es1\<rparr>) r) = None
          \<longrightarrow> ''Cannot find the hook '' @ [CHR 0x27] @ key @ [CHR 0x27]
                @ '', its state_dict is ignored.''
                \<in> set (logged (snd (load_state_dict env sd r))))
       \<and> (distinct (map fst (es1 @ (key, val) # es2)) \<and> fst (load_state_dict env sd r) = None
          \<longrightarrow> (\<forall>i < length (hooks r).
                 (\<forall>v. first_of_kind (hooks r) i \<and> (kind (hooks r ! i), v) \<in> set (es1 @ es2)
                    \<longrightarrow> hooks (snd (load_state_dict env sd r)) ! i
                        = loaded_with env v (hooks r ! i))
               \<and> (\<not> (first_of_kind (hooks r) i \<and> kind (hooks r ! i) \<in> fst ` set (es1 @ es2))
                    \<longrightarrow> hooks (snd (load_state_dict env sd r)) ! i = hooks r ! i)))"
proof -
  have rel: "fst (load_state_dict env sd r)
         = fst (load_state_dict env (sd\<lparr>s_hooks := Some (es1 @ es2)\<rparr>) r)
       \<and> (snd (load_state_dict env sd r))\<lparr>logged := []\<rparr>
         = (snd (load_state_dict env (sd\<lparr>s_hooks := Some (es1 @ es2)\<rparr>) r))\<lparr>logged := []\<rparr>
       \<and> (fst (load_state_dict env (sd\<lparr>s_hooks := Some es1\<rparr>) r) = None
          \<longrightarrow> missing_hook_warning key \<in> set (logged (snd (load_state_dict env sd r))))"
  proof (cases "s_iter sd")
    case None
    then show ?thesis by (simp add: load_state_dict_def)
  next
    case i: (Some i)
    show ?thesis
    proof (cases "s_epoch sd")
      case None
      then show ?thesis using i by (simp add: load_state_dict_def)
    next
      case e: (Some e)
      show ?thesis
      proof (cases "s_optimizer sd")
        case None
        then show ?thesis using i e by (simp add: load_state_dict_def)
      next
        case ov: (Some ov)
        obtain x ost where o: "opt_load_state_dict env ov (optimizer r) = (x, ost)"
          by (cases "opt_load_state_dict env ov (optimizer r)")
        show ?thesis
        proof (cases x)
          case (Some m)
          then show ?thesis using i e ov o by (simp add: load_state_dict_def)
        next
          case None
          let ?r = "r\<lparr>iter := i, epoch := e, optimizer := ost\<rparr>"
          have a: "load_state_dict env sd r = load_hooks_state env (es1 @ (key, val) # es2) ?r"
            using i e ov o None assms(2) by (simp add: load_state_dict_def)
          have b: "load_state_dict env (sd\<lparr>s_hooks := Some (es1 @ es2)\<rparr>) r
              = load_hooks_state env (es1 @ es2) ?r"
            using i e ov o None by (simp add: load_state_dict_def)
          have c: "load_state_dict env (sd\<lparr>s_hooks := Some es1\<rparr>) r
              = load_hooks_state env es1 ?r"
            using i e ov o None by (simp add: load_state_dict_def)
          have "\<forall>x \<in> set (hooks ?r). kind x \<noteq> key" using assms(1) by simp
          from load_hooks_state_skip[OF this, of env es1 val es2] show ?thesis
            unfolding a b c by simp
        qed
      qed
    qed
  qed
  have deliv: "\<forall>i < length (hooks r).
                 (\<forall>v. first_of_kind (hooks r) i \<and> (kind (hooks r ! i), v) \<in> set (es1 @ es2)
                    \<longrightarrow> hooks (snd (load_state_dict env sd r)) ! i
                        = loaded_with env v (hooks r ! i))
               \<and> (\<not> (first_of_kind (hooks r) i \<and> kind (hooks r ! i) \<in> fst ` set (es1 @ es2))
                    \<longrightarrow> hooks (snd (load_state_dict env sd r)) ! i = hooks r ! i)"
    if d: "distinct (map fst (es1 @ (key, val) # es2))"
      and ok: "fst (load_state_dict env sd r) = None"
  proof -
    let ?es = "es1 @ (key, val) # es2"
    obtain r' where r': "hooks r' = hooks r"
      "load_state_dict env sd r = load_hooks_state env ?es r'"
      using load_state_dict_returns[OF ok] assms(2) by (auto simp: hook_entries_def)
    have ok': "fst (load_hooks_state env ?es r') = None" using ok r'(2) by simp
    note dl = load_hooks_state_delivery[OF d, of env r', unfolded r'(1)]
    show ?thesis
    proof (intro allI impI conjI)
      fix i v
      assume i: "i < length (hooks r)"
        and a: "first_of_kind (hooks r) i \<and> (kind (hooks r ! i), v) \<in> set (es1 @ es2)"
      then have "first_of_kind (hooks r) i \<and> (kind (hooks r ! i), v) \<in> set ?es" by auto
      then show "hooks (snd (load_state_dict env sd r)) ! i = loaded_with env v (hooks r ! i)"
        unfolding r'(2) using dl ok' i by blast
    next
      fix i
      assume i: "i < length (hooks r)"
        and a: "\<not> (first_of_kind (hooks r) i \<and> kind (hooks r ! i) \<in> fst ` set (es1 @ es2))"
      have "kind (hooks r ! i) \<noteq> key" using assms(1) i by simp
      then have "\<not> (first_of_kind (hooks r) i \<and> kind (hooks r ! i) \<in> fst ` set ?es)"
        using a by auto
      then show "hooks (snd (load_state_dict env sd r)) ! i = hooks r ! i"
        unfolding r'(2) using dl ok' i by blast
    qed
  qed
  show ?thesis
    using rel deliv by (simp add: missing_hook_warning_def)
qed

text \<open>
  Entries for A, for a kind that is gone, and for B, restored into a runner with hooks A
  and B.
\<close>

theorem load_state_dict_unmatched_entry_witness:
  "load_state_dict demo_env
     \<lparr>s_iter = Some 9, s_epoch = Some 2, s_optimizer = Some (PInt 5),
      s_hooks = Some [(''A'', PInt 1), (''Gone'', PInt 2), (''B'', PInt 3)]\<rparr>
     (demo_runner\<lparr>hooks := [\<lparr>kind = ''A'', priority = Some 10, hstate = PNone\<rparr>,
                            \<lparr>kind = ''B'', priority = Some 20, hstate = PNone\<rparr>]\<rparr>)
   = (None, demo_runner\<lparr>hooks := [\<lparr>kind = ''A'', priority = Some 10, hstate = PInt 1\<rparr>,
                                   \<lparr>kind = ''B'', priority = Some 20, hstate = PInt 3\<rparr>],
                         iter := 9, epoch := 2, optimizer := PInt 5,
                         logged := [''Cannot find the hook 'Gone', its state_dict is ignored.'']\<rparr>)
   \<and> ''Cannot find the hook 'Gone', its state_dict is ignored.''
       \<in> set (logged (snd (load_state_dict demo_env
           \<lparr>s_iter = Some 9, s_epoch = Some 2, s_optimizer = Some (PInt 5),
            s_hooks = Some [(''A'', PInt 1), (''Gone'', PInt 2), (''B'', PInt 3)]\<rparr>
           (demo_runner\<lparr>hooks := [\<lparr>kind = ''A'', priority = Some 10, hstate = PNone\<rparr>,
                                  \<lparr>kind = ''B'', priority = Some 20, hstate = PNone\<rparr>]\<rparr>))))
   \<and> hooks (snd (load_state_dict demo_env
           \<lparr>s_iter = Some 9, s_epoch = Some 2, s_optimizer = Some (PInt 5),
            s_hooks = Some [(''A'', PInt 1), (''Gone'', PInt 2), (''B'', PInt 3)]\<rparr>
           (demo_runner\<lparr>hooks := [\<lparr>kind = ''A'', priority = Some 10, hstate = PNone\<rparr>,
                                  \<lparr>kind = ''B'', priority = Some 20, hstate = PNone\<rparr>]\<rparr>))) ! Suc 0
     = loaded_with demo_env (PInt 3) \<lparr>kind = ''B'', priority = Some 20, hstate = PNone\<rparr>"
proof -
  let ?sd = "\<lparr>s_iter = Some 9, s_epoch = Some 2, s_optimizer = Some (PInt 5),
      s_hooks = Some [(''A'', PInt 1), (''Gone'', PInt 2), (''B'', PInt 3)]\<rparr>"
  let ?r = "demo_runner\<lparr>hooks := [\<lparr>kind = ''A'', priority = Some 10, hstate = PNone\<rparr>,
                            \<lparr>kind = ''B'', priority = Some 20, hstate = PNone\<rparr>]\<rparr>"
  have a: "\<forall>x \<in> set (hooks ?r). kind x \<noteq> ''Gone''" by simp
  have b: "s_hooks ?sd = Some ([(''A'', PInt 1)] @ (''Gone'', PInt 2) # [(''B'', PInt 3)])"
    by simp
  have c: "load_state_dict demo_env ?sd ?r
     = (None, demo_runner\<lparr>hooks := [\<lparr>kind = ''A'', priority = Some 10, hstate = PInt 1\<rparr>,
                                   \<lparr>kind = ''B'', priority = Some 20, hstate = PInt 3\<rparr>],
                         iter := 9, epoch := 2, optimizer := PInt 5,
                         logged := [''Cannot find the hook 'Gone', its state_dict is ignored.'']\<rparr>)"
    by code_simp
  have d: "fst (load_state_dict demo_env (?sd\<lparr>s_hooks := Some [(''A'', PInt 1)]\<rparr>) ?r) = None"
    by (simp add: load_state_dict_def demo_env_def demo_runner_def)
  have e: "distinct (map fst ([(''A'', PInt 1)] @ (''Gone'', PInt 2) # [(''B'', PInt 3)]))"
    by simp
  have f: "first_of_kind (hooks ?r) (Suc 0)" by (simp add: first_of_kind_def)
  have g: "loaded_with demo_env (PInt 3) \<lparr>kind = ''B'', priority = Some 20, hstate = PNone\<rparr>
      = \<lparr>kind = ''B'', priority = Some 20, hstate = PInt 3\<rparr>"
    by (simp add: loaded_with_def demo_env_def)
  show ?thesis
    using c d e f g load_state_dict_unmatched_entry[OF a b, of demo_env] by simp
qed

lemma spec_hooks_state_member:
  "(k, v) \<in> set (spec_hooks_state env hs)
     \<longleftrightarrow> (\<exists>h. find (\<lambda>h. kind h = k \<and> stateful env h) hs = Some h \<and> hook_export env h = Some v)"
proof -
  have "(k, v) \<in> set (spec_hooks_state env hs) \<longleftrightarrow> map_of (spec_hooks_state env hs) k = Some v"
    using spec_hooks_state_distinct[of env hs] by simp
  then show ?thesis
    unfolding spec_hooks_state_lookup by (auto split: option.splits)
qed

lemma find_first_of_kind:
  assumes "first_of_kind hs i" "i < length hs" "stateful env (hs ! i)"
  shows "find (\<lambda>h. kind h = kind (hs ! i) \<and> stateful env h) hs = Some (hs ! i)"
proof -
  have "\<forall>j < i. \<not> (kind (hs ! j) = kind (hs ! i) \<and> stateful env (hs ! j))"
    using first_of_kind_earlier[OF assms(1) _ assms(2)] by blast
  then show ?thesis
    using assms(2,3) unfolding find_Some_iff by (intro exI[of _ i]) simp
qed

text \<open>
  C3. Take any runner whose \<^verbatim>\<open>state_dict()\<close> calls return, and a second runner whose
  hooks have the same kinds in the same order. Let the optimizer of the second accept the
  optimizer state of the first, and let each hook of the second that is the first of its
  kind accept the state of the first stateful hook of that kind in the first runner, if
  there is one. Then \<^verbatim>\<open>state_dict\<close> of the first runner returns a snapshot and
  \<^verbatim>\<open>load_state_dict\<close> of it into the second returns normally. The second runner then has
  the \<open>iter\<close> and \<open>epoch\<close> of the first, and at the place of every stateful hook of the
  first that is the first hook of its kind it has a hook that exports the same state. A
  hook that has a hook of its own kind before it receives nothing: it is as the second
  runner had it before.
\<close>

theorem snapshot_restore_roundtrip:
  assumes "fst (opt_state_dict env (optimizer r)) = Inr ov"
    and "\<forall>h \<in> set (hooks r). hook_export env h \<noteq> None"
    and "map kind (hooks r0) = map kind (hooks r)"
    and "fst (opt_load_state_dict env ov (optimizer r0)) = None"
    and "\<forall>i < length (hooks r0). \<forall>h.
           first_of_kind (hooks r0) i
           \<and> find (\<lambda>h. kind h = kind (hooks r0 ! i) \<and> stateful env h) (hooks r) = Some h
           \<longrightarrow> accepts env (the (hook_export env h)) (hooks r0 ! i)"
  shows "\<exists>sd. fst (state_dict env r) = Inr sd
           \<and> fst (load_state_dict env sd r0) = None
           \<and> iter (snd (load_state_dict env sd r0)) = iter r
           \<and> epoch (snd (load_state_dict env sd r0)) = epoch r
           \<and> map kind (hooks (snd (load_state_dict env sd r0))) = map kind (hooks r)
           \<and> (\<forall>i < length (hooks r).
                 stateful env (hooks r ! i) \<and> first_of_kind (hooks r) i
                 \<longrightarrow> hook_export env (hooks (snd (load_state_dict env sd r0)) ! i)
                     = hook_export env (hooks r ! i))
           \<and> (\<forall>i < length (hooks r).
                 \<not> first_of_kind (hooks r) i
                 \<longrightarrow> hooks (snd (load_state_dict env sd r0)) ! i = hooks r0 ! i)"
proof -
  let ?es = "spec_hooks_state env (hooks r)"
  obtain sd where sd: "fst (state_dict env r) = Inr sd" "s_iter sd = Some (iter r)"
    "s_epoch sd = Some (epoch r)" "s_optimizer sd = Some ov" "hook_entries sd = ?es"
    using state_dict_entries[OF assms(1,2)] by blast
  obtain x ost where o: "opt_load_state_dict env ov (optimizer r0) = (x, ost)"
    by (cases "opt_load_state_dict env ov (optimizer r0)")
  then have x: "x = None" using assms(4) by simp
  let ?t = "r0\<lparr>iter := iter r, epoch := epoch r, optimizer := ost\<rparr>"
  have l: "load_state_dict env sd r0 = load_hooks_state env ?es ?t"
    using sd o x by (simp add: load_state_dict_def hook_entries_def)
  have len: "length (hooks r0) = length (hooks r)"
    using assms(3) by (metis length_map)
  have ht: "hooks ?t = hooks r0" by simp
  have fk: "\<And>i. i < length (hooks r) \<Longrightarrow> first_of_kind (hooks r0) i = first_of_kind (hooks r) i"
    using first_of_kind_cong[OF assms(3)] by simp
  have kn: "\<And>i. i < length (hooks r) \<Longrightarrow> kind (hooks r0 ! i) = kind (hooks r ! i)"
  proof -
    fix i assume i: "i < length (hooks r)"
    have "map kind (hooks r0) ! i = map kind (hooks r) ! i" using assms(3) by simp
    then show "kind (hooks r0 ! i) = kind (hooks r ! i)" using i len by simp
  qed
  note dl = load_hooks_state_delivery[of ?es env ?t, OF spec_hooks_state_distinct,
      unfolded ht]
  have acc: "accepts env v (hooks r0 ! i)"
    if "i < length (hooks r0)" "first_of_kind (hooks r0) i"
      "(kind (hooks r0 ! i), v) \<in> set ?es" for i v
  proof -
    from that(3) obtain h where
      "find (\<lambda>h. kind h = kind (hooks r0 ! i) \<and> stateful env h) (hooks r) = Some h"
      "hook_export env h = Some v"
      unfolding spec_hooks_state_member by blast
    then show ?thesis using assms(5) that(1,2) by fastforce
  qed
  have ok: "fst (load_hooks_state env ?es ?t) = None"
  proof -
    have "\<forall>i < length (hooks r0). \<forall>v.
            first_of_kind (hooks r0) i \<and> (kind (hooks r0 ! i), v) \<in> set ?es
            \<longrightarrow> fst (hook_load_state_dict env v (hooks r0 ! i)) = None"
      using acc by (auto simp: accepts_def)
    then show ?thesis using dl by blast
  qed
  have first: "\<forall>i < length (hooks r).
                 stateful env (hooks r ! i) \<and> first_of_kind (hooks r) i
                 \<longrightarrow> hook_export env (hooks (snd (load_state_dict env sd r0)) ! i)
                     = hook_export env (hooks r ! i)"
  proof (intro allI impI)
    fix i assume i: "i < length (hooks r)"
      and a: "stateful env (hooks r ! i) \<and> first_of_kind (hooks r) i"
    obtain v where v: "hook_export env (hooks r ! i) = Some v"
      using assms(2) i by fastforce
    have "find (\<lambda>h. kind h = kind (hooks r ! i) \<and> stateful env h) (hooks r)
        = Some (hooks r ! i)"
      using find_first_of_kind[of "hooks r" i env] a i by simp
    then have m: "(kind (hooks r0 ! i), v) \<in> set ?es"
      unfolding spec_hooks_state_member using v kn[OF i] by simp
    have f0: "first_of_kind (hooks r0) i" using a fk[OF i] by simp
    have i0: "i < length (hooks r0)" using i len by simp
    have "hooks (snd (load_hooks_state env ?es ?t)) ! i = loaded_with env v (hooks r0 ! i)"
      using dl ok i0 f0 m by blast
    moreover have "hook_export env (loaded_with env v (hooks r0 ! i)) = Some v"
      using acc[OF i0 f0 m] by (simp add: accepts_def)
    ultimately show "hook_export env (hooks (snd (load_state_dict env sd r0)) ! i)
                     = hook_export env (hooks r ! i)"
      unfolding l using v by simp
  qed
  have later: "\<forall>i < length (hooks r).
                 \<not> first_of_kind (hooks r) i
                 \<longrightarrow> hooks (snd (load_state_dict env sd r0)) ! i = hooks r0 ! i"
  proof (intro allI impI)
    fix i assume i: "i < length (hooks r)" and a: "\<not> first_of_kind (hooks r) i"
    have i0: "i < length (hooks r0)" using i len by simp
    have "\<not> (first_of_kind (hooks r0) i \<and> kind (hooks r0 ! i) \<in> fst ` set ?es)"
      using a fk[OF i] by simp
    then show "hooks (snd (load_state_dict env sd r0)) ! i = hooks r0 ! i"
      unfolding l using dl ok i0 by blast
  qed
  have "iter (snd (load_state_dict env sd r0)) = iter r"
    "epoch (snd (load_state_dict env sd r0)) = epoch r"
    unfolding l using load_hooks_state_counters[of env _ ?t] by simp_all
  moreover have "map kind (hooks (snd (load_state_dict env sd r0))) = map kind (hooks r)"
    unfolding l using load_hooks_state_kinds[of env _ ?t] assms(3) by simp
  moreover have "fst (load_state_dict env sd r0) = None" unfolding l using ok .
  ultimately show ?thesis
    using sd(1) first later by (intro exI[of _ sd]) simp
qed

text \<open>
  Hooks A (state 1), E (empty state), B (state b) and a second, stateless A at iteration 7
  of epoch 1, restored into a runner with hooks of the same kinds: the first A and B take
  the states, E and the second A stay as they were.
\<close>

theorem snapshot_restore_roundtrip_witness:
  "fst (state_dict demo_env
     (demo_runner\<lparr>hooks :=
          [\<lparr>kind = ''A'', priority = Some 10, hstate = PInt 1\<rparr>,
           \<lparr>kind = ''E'', priority = Some 20, hstate = PDict []\<rparr>,
           \<lparr>kind = ''B'', priority = Some 30, hstate = PStr ''b''\<rparr>,
           \<lparr>kind = ''A'', priority = Some 40, hstate = PNone\<rparr>],
        iter := 7, epoch := 1\<rparr>))
     = Inr \<lparr>s_iter = Some 7, s_epoch = Some 1, s_optimizer = Some PNone,
          s_hooks = Some [(''A'', PInt 1), (''B'', PStr ''b'')]\<rparr>
   \<and> load_state_dict demo_env
        \<lparr>s_iter = Some 7, s_epoch = Some 1, s_optimizer = Some PNone,
          s_hooks = Some [(''A'', PInt 1), (''B'', PStr ''b'')]\<rparr>
     (demo_runner\<lparr>hooks :=
          [\<lparr>kind = ''A'', priority = Some 10, hstate = PNone\<rparr>,
           \<lparr>kind = ''E'', priority = Some 20, hstate = PNone\<rparr>,
           \<lparr>kind = ''B'', priority = Some 30, hstate = PNone\<rparr>,
           \<lparr>kind = ''A'', priority = Some 40, hstate = PInt 99\<rparr>]\<rparr>)
     = (None,
        demo_runner\<lparr>hooks :=
          [\<lparr>kind = ''A'', priority = Some 10, hstate = PInt 1\<rparr>,
           \<lparr>kind = ''E'', priority = Some 20, hstate = PNone\<rparr>,
           \<lparr>kind = ''B'', priority = Some 30, hstate = PStr ''b''\<rparr>,
           \<lparr>kind = ''A'', priority = Some 40, hstate = PInt 99\<rparr>],
        iter := 7, epoch := 1\<rparr>)
   \<and> (\<exists>sd. fst (state_dict demo_env
     (demo_runner\<lparr>hooks :=
          [\<lparr>kind = ''A'', priority = Some 10, hstate = PInt 1\<rparr>,
           \<lparr>kind = ''E'', priority = Some 20, hstate = PDict []\<rparr>,
           \<lparr>kind = ''B'', priority = Some 30, hstate = PStr ''b''\<rparr>,
           \<lparr>kind = ''A'', priority = Some 40, hstate = PNone\<rparr>],
        iter := 7, epoch := 1\<rparr>)) = Inr sd
        \<and> iter (snd (load_state_dict demo_env sd
     (demo_runner\<lparr>hooks :=
          [\<lparr>kind = ''A'', priority = Some 10, hstate = PNone\<rparr>,
           \<lparr>kind = ''E'', priority = Some 20, hstate = PNone\<rparr>,
           \<lparr>kind = ''B'', priority = Some 30, hstate = PNone\<rparr>,
           \<lparr>kind = ''A'', priority = Some 40, hstate = PInt 99\<rparr>]\<rparr>))) = 7)"
proof -
  let ?r = "demo_runner\<lparr>hooks :=
          [\<lparr>kind = ''A'', priority = Some 10, hstate = PInt 1\<rparr>,
           \<lparr>kind = ''E'', priority = Some 20, hstate = PDict []\<rparr>,
           \<lparr>kind = ''B'', priority = Some 30, hstate = PStr ''b''\<rparr>,
           \<lparr>kind = ''A'', priority = Some 40, hstate = PNone\<rparr>],
        iter := 7, epoch := 1\<rparr>"
  let ?tgt = "demo_runner\<lparr>hooks :=
          [\<lparr>kind = ''A'', priority = Some 10, hstate = PNone\<rparr>,
           \<lparr>kind = ''E'', priority = Some 20, hstate = PNone\<rparr>,
           \<lparr>kind = ''B'', priority = Some 30, hstate = PNone\<rparr>,
           \<lparr>kind = ''A'', priority = Some 40, hstate = PInt 99\<rparr>]\<rparr>"
  have a1: "fst (opt_state_dict demo_env (optimizer ?r)) = Inr PNone"
    by (simp add: demo_env_def demo_runner_def)
  have a2: "\<forall>h \<in> set (hooks ?r). hook_export demo_env h \<noteq> None"
    by (simp add: hook_export_def demo_env_def)
  have a3: "map kind (hooks ?tgt) = map kind (hooks ?r)" by simp
  have a4: "fst (opt_load_state_dict demo_env PNone (optimizer ?tgt)) = None"
    by (simp add: demo_env_def)
  have acc: "\<And>v h. accepts demo_env v h"
    by (simp add: accepts_def loaded_with_def hook_export_def demo_env_def)
  have a5: "\<forall>i < length (hooks ?tgt). \<forall>h.
           first_of_kind (hooks ?tgt) i
           \<and> find (\<lambda>h. kind h = kind (hooks ?tgt ! i) \<and> stateful demo_env h) (hooks ?r) = Some h
           \<longrightarrow> accepts demo_env (the (hook_export demo_env h)) (hooks ?tgt ! i)"
    using acc by blast
  have s: "fst (state_dict demo_env ?r)
     = Inr \<lparr>s_iter = Some 7, s_epoch = Some 1, s_optimizer = Some PNone,
          s_hooks = Some [(''A'', PInt 1), (''B'', PStr ''b'')]\<rparr>"
    by code_simp
  have l: "load_state_dict demo_env
        \<lparr>s_iter = Some 7, s_epoch = Some 1, s_optimizer = Some PNone,
          s_hooks = Some [(''A'', PInt 1), (''B'', PStr ''b'')]\<rparr> ?tgt
     = (None,
        demo_runner\<lparr>hooks :=
          [\<lparr>kind = ''A'', priority = Some 10, hstate = PInt 1\<rparr>,
           \<lparr>kind = ''E'', priority = Some 20, hstate = PNone\<rparr>,
           \<lparr>kind = ''B'', priority = Some 30, hstate = PStr ''b''\<rparr>,
           \<lparr>kind = ''A'', priority = Some 40, hstate = PInt 99\<rparr>],
        iter := 7, epoch := 1\<rparr>)"
    by code_simp
  show ?thesis
    using s l snapshot_restore_roundtrip[OF a1 a2 a3 a4 a5] by auto
qed

text \<open>
  With two stateful hooks of one kind the snapshot holds the state of the first only, and
  after the restore the second hook of the target does not export what the second hook of
  the source did.
\<close>

theorem snapshot_restore_same_kind_counterexample:
  "fst (state_dict demo_env
          (demo_runner\<lparr>hooks := [\<lparr>kind = ''H'', priority = Some 10, hstate = PInt 1\<rparr>,
                                 \<lparr>kind = ''H'', priority = Some 20, hstate = PInt 2\<rparr>],
                        iter := 7, epoch := 1\<rparr>))
     = Inr \<lparr>s_iter = Some 7, s_epoch = Some 1, s_optimizer = Some PNone,
            s_hooks = Some [(''H'', PInt 1)]\<rparr>
   \<and> load_state_dict demo_env
        \<lparr>s_iter = Some 7, s_epoch = Some 1, s_optimizer = Some PNone,
         s_hooks = Some [(''H'', PInt 1)]\<rparr>
        (demo_runner\<lparr>hooks := [\<lparr>kind = ''H'', priority = Some 10, hstate = PNone\<rparr>,
                               \<lparr>kind = ''H'', priority = Some 20, hstate = PNone\<rparr>]\<rparr>)
     = (None,
        demo_runner\<lparr>hooks := [\<lparr>kind = ''H'', priority = Some 10, hstate = PInt 1\<rparr>,
                               \<lparr>kind = ''H'', priority = Some 20, hstate = PNone\<rparr>],
                      iter := 7, epoch := 1\<rparr>)
   \<and> stateful demo_env \<lparr>kind = ''H'', priority = Some 20, hstate = PInt 2\<rparr>
   \<and> hook_export demo_env \<lparr>kind = ''H'', priority = Some 20, hstate = PInt 2\<rparr> = Some (PInt 2)
   \<and> hook_export demo_env \<lparr>kind = ''H'', priority = Some 20, hstate = PNone\<rparr> = Some PNone
   \<and> hook_export demo_env \<lparr>kind = ''H'', priority = Some 20, hstate = PNone\<rparr>
       \<noteq> hook_export demo_env \<lparr>kind = ''H'', priority = Some 20, hstate = PInt 2\<rparr>"
  by code_simp

end
